theory Spec2Isabelle
  imports Main "HOL-Library.AList"
begin

section \<open>Reserved-instance reconciliation (reserved_instance.py)\<close>

text \<open>
  The script reads two API responses (the running instances, grouped by launch
  reservation, and the active reserved-instance purchases), aggregates both per
  \<open>(instance_type, region)\<close> key, computes the per-key difference, prints three
  reports and a summary. The embedding below follows the script line by line.

  \<^item> A Python \<open>dict\<close> is an association list in insertion order: assigning to a key
    that is present replaces its value in place, assigning to a new key appends it
    (\<open>AList.update\<close> does exactly that), iteration runs from the head.
  \<^item> Python's \<open>int\<close> is \<open>int\<close>, \<open>str\<close> is \<open>string\<close>.
  \<^item> The records of the API responses are Python dictionaries: an item access
    \<open>record["Key"]\<close> on a missing key raises \<open>KeyError\<close>, so every field the script
    indexes is an \<open>option\<close>, and the script's result is \<open>py_error + script_state\<close>.
  \<^item> The module-level variables and the two output streams are the fields of
    \<open>script_state\<close>; the script is a function from the state it starts in to the state
    it ends in.
\<close>

subsection \<open>Python values\<close>

datatype py_error = KeyError

type_synonym placement_key = "string \<times> string"

text \<open>\<open>d.get(k, dflt)\<close>; on a \<open>defaultdict\<close> with default \<open>dflt\<close> also the value of \<open>d[k]\<close>.\<close>

definition dict_get :: "('k \<times> 'v) list \<Rightarrow> 'k \<Rightarrow> 'v \<Rightarrow> 'v" where
  "dict_get d k dflt = (case map_of d k of None \<Rightarrow> dflt | Some v \<Rightarrow> v)"

text \<open>\<open>list(d)\<close>, the keys in iteration order, and \<open>k in d\<close>.\<close>

definition dict_keys :: "('k \<times> 'v) list \<Rightarrow> 'k list" where
  "dict_keys d = map fst d"

definition dict_contains :: "('k \<times> 'v) list \<Rightarrow> 'k \<Rightarrow> bool" where
  "dict_contains d k \<longleftrightarrow> k \<in> set (dict_keys d)"

text \<open>\<open>d.values()\<close>.\<close>

definition dict_values :: "('k \<times> 'v) list \<Rightarrow> 'v list" where
  "dict_values d = map snd d"

text \<open>\<open>d[k] += n\<close> on a \<open>defaultdict(int)\<close>: a missing key starts from 0.\<close>

definition dd_add :: "'k \<Rightarrow> int \<Rightarrow> ('k \<times> int) list \<Rightarrow> ('k \<times> int) list" where
  "dd_add k n d = AList.update k (dict_get d k 0 + n) d"

text \<open>\<open>d[k].append(x)\<close> on a \<open>defaultdict(list)\<close>: a missing key starts from \<open>[]\<close>.\<close>

definition dd_append :: "'k \<Rightarrow> 'a \<Rightarrow> ('k \<times> 'a list) list \<Rightarrow> ('k \<times> 'a list) list" where
  "dd_append k x d = AList.update k (dict_get d k [] @ [x]) d"

text \<open>A dict comprehension \<open>{k: v for ...}\<close>: the items are stored one after the other.\<close>

definition dict_of_items :: "('k \<times> 'v) list \<Rightarrow> ('k \<times> 'v) list" where
  "dict_of_items items = fold (\<lambda>(k, v) d. AList.update k v d) items []"

text \<open>\<open>str(n)\<close> for an integer, as an f-string formats it.\<close>

definition digit_char :: "nat \<Rightarrow> char" where
  "digit_char n = char_of (48 + n)"

function str_nat :: "nat \<Rightarrow> string" where
  "str_nat n = (if n < 10 then [digit_char n] else str_nat (n div 10) @ [digit_char (n mod 10)])"
  by pat_completeness auto
termination
  by (relation "measure id") auto

declare str_nat.simps [simp del]

definition str_int :: "int \<Rightarrow> string" where
  "str_int i = (if i < 0 then CHR ''-'' # str_nat (nat (- i)) else str_nat (nat i))"

text \<open>\<open>sep.join(xs)\<close>.\<close>

fun join :: "string \<Rightarrow> string list \<Rightarrow> string" where
  "join sep [] = []"
| "join sep [x] = x"
| "join sep (x # y # ys) = x @ sep @ join sep (y # ys)"

subsection \<open>Input records\<close>

text \<open>
  One element of \<open>reservation["Instances"]\<close>. \<open>Placement_AvailabilityZone\<close> is
  \<open>instance["Placement"]["AvailabilityZone"]\<close>, \<open>None\<close> when either key is missing.
  \<open>SpotInstanceRequestId\<close> is only tested for presence.
\<close>

record ec2_instance =
  InstanceId :: "string option"
  InstanceType :: "string option"
  Placement_AvailabilityZone :: "string option"
  SpotInstanceRequestId :: "string option"

text \<open>
  One element of the \<open>"ReservedInstances"\<close> list. The fields are prefixed with \<open>RI_\<close>
  where the name is also a field of \<open>ec2_instance\<close>.
\<close>

record reserved_instance =
  RI_InstanceType :: "string option"
  RI_AvailabilityZone :: "string option"
  Scope :: "string option"
  InstanceCount :: "int option"

subsection \<open>The script's variables and output streams\<close>

record script_state =
  running_instances :: "(placement_key \<times> int) list"
  instance_mapping :: "(placement_key \<times> string list) list"
  reserved_instances :: "(placement_key \<times> int) list"
  instance_diff :: "(placement_key \<times> int) list"
  unused_reservations :: "(placement_key \<times> int) list"
  unreserved_instances :: "(placement_key \<times> int) list"
  used_reservations :: "(placement_key \<times> int) list"
  qty_running_instances :: int
  qty_reserved_instances :: int
  stdout :: "string list"
  stderr :: "string list"

subsection \<open>Lines 28--37: the running instances\<close>

text \<open>The body of the inner loop, for one instance.\<close>

definition visit_instance :: "ec2_instance \<Rightarrow> script_state \<Rightarrow> py_error + script_state" where
  "visit_instance inst s =
     (if SpotInstanceRequestId inst \<noteq> None then
        (case InstanceId inst of
           None \<Rightarrow> Inl KeyError
         | Some iid \<Rightarrow>
             Inr (s\<lparr>stderr := stderr s @
                    [''Disqualifying instance '' @ iid @ '': spot'' @ [CHR 0x0A]]\<rparr>))
      else
        (case InstanceType inst of
           None \<Rightarrow> Inl KeyError
         | Some instance_type \<Rightarrow>
             (case Placement_AvailabilityZone inst of
                None \<Rightarrow> Inl KeyError
              | Some az \<Rightarrow>
                  (let region = butlast az;
                       s1 = s\<lparr>running_instances :=
                               dd_add (instance_type, region) 1 (running_instances s)\<rparr>
                   in case InstanceId inst of
                        None \<Rightarrow> Inl KeyError
                      | Some iid \<Rightarrow>
                          Inr (s1\<lparr>instance_mapping :=
                                 dd_append (instance_type, region) iid (instance_mapping s1)\<rparr>)))))"

fun instances_loop :: "ec2_instance list \<Rightarrow> script_state \<Rightarrow> py_error + script_state" where
  "instances_loop [] s = Inr s"
| "instances_loop (inst # rest) s =
     (case visit_instance inst s of
        Inl e \<Rightarrow> Inl e
      | Inr s' \<Rightarrow> instances_loop rest s')"

text \<open>The outer loop; a reservation is its list \<open>reservation["Instances"]\<close>.\<close>

fun reservations_loop :: "ec2_instance list list \<Rightarrow> script_state \<Rightarrow> py_error + script_state" where
  "reservations_loop [] s = Inr s"
| "reservations_loop (reservation # rest) s =
     (case instances_loop reservation s of
        Inl e \<Rightarrow> Inl e
      | Inr s' \<Rightarrow> reservations_loop rest s')"

subsection \<open>Lines 43--54: the reserved instances\<close>

text \<open>
  Lines 47--52. The first test is \<open>"AvailabilityZone" in r and r["AvailabilityZone"]\<close>:
  the key is present and its string is not empty.
\<close>

definition reserved_region :: "string \<Rightarrow> reserved_instance \<Rightarrow> string" where
  "reserved_region region_name ri =
     (if (case RI_AvailabilityZone ri of None \<Rightarrow> False | Some az \<Rightarrow> az \<noteq> [])
      then butlast (the (RI_AvailabilityZone ri))
      else if Scope ri = Some ''Region'' then region_name
      else ''Unknown'')"

definition visit_reserved :: "string \<Rightarrow> reserved_instance \<Rightarrow> script_state \<Rightarrow> py_error + script_state" where
  "visit_reserved region_name ri s =
     (case RI_InstanceType ri of
        None \<Rightarrow> Inl KeyError
      | Some instance_type \<Rightarrow>
          (let region = reserved_region region_name ri
           in case InstanceCount ri of
                None \<Rightarrow> Inl KeyError
              | Some n \<Rightarrow>
                  Inr (s\<lparr>reserved_instances :=
                         dd_add (instance_type, region) n (reserved_instances s)\<rparr>)))"

fun reserved_loop :: "string \<Rightarrow> reserved_instance list \<Rightarrow> script_state \<Rightarrow> py_error + script_state" where
  "reserved_loop region_name [] s = Inr s"
| "reserved_loop region_name (ri # rest) s =
     (case visit_reserved region_name ri s of
        Inl e \<Rightarrow> Inl e
      | Inr s' \<Rightarrow> reserved_loop region_name rest s')"

subsection \<open>Lines 56--62: the differences\<close>

fun running_only_loop :: "placement_key list \<Rightarrow> script_state \<Rightarrow> script_state" where
  "running_only_loop [] s = s"
| "running_only_loop (placement_key # rest) s =
     running_only_loop rest
       (if \<not> dict_contains (reserved_instances s) placement_key
        then s\<lparr>instance_diff :=
                 AList.update placement_key (- dict_get (running_instances s) placement_key 0)
                   (instance_diff s)\<rparr>
        else s)"

definition compute_diff :: "script_state \<Rightarrow> script_state" where
  "compute_diff s =
     (let s1 = s\<lparr>instance_diff :=
                  dict_of_items
                    (map (\<lambda>x. (x, dict_get (reserved_instances s) x 0
                                   - dict_get (running_instances s) x 0))
                       (dict_keys (reserved_instances s)))\<rparr>
      in running_only_loop (dict_keys (running_instances s1)) s1)"

subsection \<open>Lines 64--88: the three reports\<close>

definition report_unused :: "script_state \<Rightarrow> script_state" where
  "report_unused s =
     (let s1 = s\<lparr>unused_reservations :=
                  dict_of_items (filter (\<lambda>(key, value). value > 0) (instance_diff s))\<rparr>
      in if unused_reservations s1 \<noteq> []
         then s1\<lparr>stdout := stdout s1 @
                   map (\<lambda>(key, value). ''UNUSED RESERVATION! ('' @ str_int value @ '') ''
                                          @ fst key @ '' '' @ snd key)
                     (unused_reservations s1)\<rparr>
         else s1\<lparr>stdout := stdout s1 @
                   [''Congratulations, you have no unused reservations'']\<rparr>)"

definition report_unreserved :: "script_state \<Rightarrow> script_state" where
  "report_unreserved s =
     (let s1 = s\<lparr>unreserved_instances :=
                  dict_of_items
                    (map (\<lambda>(key, value). (key, - value))
                       (filter (\<lambda>(key, value). value < 0) (instance_diff s)))\<rparr>
      in if unreserved_instances s1 \<noteq> []
         then s1\<lparr>stdout := stdout s1 @
                   map (\<lambda>(key, value). ''Instance not reserved: ('' @ str_int value @ '') ''
                                          @ fst key @ '' '' @ snd key)
                     (unreserved_instances s1)\<rparr>
         else s1\<lparr>stdout := stdout s1 @
                   [''Congratulations, you have no unreserved instances'']\<rparr>)"

text \<open>Line 85: the instance list reported for a key of \<open>used_reservations\<close>.\<close>

definition instance_list :: "script_state \<Rightarrow> placement_key \<Rightarrow> string list" where
  "instance_list s key = dict_get (instance_mapping s) key [''N/A'']"

definition report_used :: "script_state \<Rightarrow> script_state" where
  "report_used s =
     (let s1 = s\<lparr>used_reservations :=
                  dict_of_items (filter (\<lambda>(key, value). value = 0) (instance_diff s))\<rparr>
      in if used_reservations s1 \<noteq> []
         then s1\<lparr>stdout := stdout s1 @ [CHR 0x0A # ''Used Reservations:''] @
                   map (\<lambda>(key, value). ''Reserved Instances ('' @ fst key @ '' '' @ snd key
                                          @ ''): '' @ join '', '' (instance_list s1 key))
                     (used_reservations s1)\<rparr>
         else s1\<lparr>stdout := stdout s1 @ [CHR 0x0A # ''No used reservations found'']\<rparr>)"

subsection \<open>Lines 90--94: the summary\<close>

definition summary :: "script_state \<Rightarrow> script_state" where
  "summary s =
     (let s1 = s\<lparr>qty_running_instances := sum_list (dict_values (running_instances s))\<rparr>;
          s2 = s1\<lparr>qty_reserved_instances := sum_list (dict_values (reserved_instances s1))\<rparr>
      in s2\<lparr>stdout := stdout s2 @
               [CHR 0x0A # ''('' @ str_int (qty_running_instances s2)
                  @ '') running on-demand instances'' @ [CHR 0x0A]
                  @ ''('' @ str_int (qty_reserved_instances s2) @ '') reservations'']\<rparr>)"

subsection \<open>The whole script\<close>

text \<open>
  \<open>region_name\<close> is \<open>session.region_name\<close>, \<open>reservations\<close> the \<open>"Reservations"\<close> list of
  the first response (each with its \<open>"Instances"\<close>), \<open>reserved\<close> the \<open>"ReservedInstances"\<close>
  list of the second. Lines 25, 26 and 40 assign fresh dictionaries.
\<close>

definition script ::
  "string \<Rightarrow> ec2_instance list list \<Rightarrow> reserved_instance list \<Rightarrow> script_state
     \<Rightarrow> py_error + script_state" where
  "script region_name reservations reserved s0 =
     (case reservations_loop reservations (s0\<lparr>running_instances := [], instance_mapping := []\<rparr>) of
        Inl e \<Rightarrow> Inl e
      | Inr s1 \<Rightarrow>
          (case reserved_loop region_name reserved (s1\<lparr>reserved_instances := []\<rparr>) of
             Inl e \<Rightarrow> Inl e
           | Inr s2 \<Rightarrow>
               Inr (summary (report_used (report_unreserved (report_unused (compute_diff s2)))))))"

subsection \<open>The script on its two responses\<close>

text \<open>
  The two responses are dictionaries too: line 28 indexes \<open>"Reservations"\<close> and, for
  each reservation, \<open>"Instances"\<close>; line 43 indexes \<open>"ReservedInstances"\<close>. The script
  on responses whose keys may be missing:
\<close>

record reservation =
  Instances :: "ec2_instance list option"

fun reservation_records_loop :: "reservation list \<Rightarrow> script_state \<Rightarrow> py_error + script_state" where
  "reservation_records_loop [] s = Inr s"
| "reservation_records_loop (reservation # rest) s =
     (case Instances reservation of
        None \<Rightarrow> Inl KeyError
      | Some instances \<Rightarrow>
          (case instances_loop instances s of
             Inl e \<Rightarrow> Inl e
           | Inr s' \<Rightarrow> reservation_records_loop rest s'))"

definition script_on_responses ::
  "string \<Rightarrow> reservation list option \<Rightarrow> reserved_instance list option \<Rightarrow> script_state
     \<Rightarrow> py_error + script_state" where
  "script_on_responses region_name Reservations ReservedInstances s0 =
     (case Reservations of
        None \<Rightarrow> Inl KeyError
      | Some reservations \<Rightarrow>
          (case reservation_records_loop reservations
                  (s0\<lparr>running_instances := [], instance_mapping := []\<rparr>) of
             Inl e \<Rightarrow> Inl e
           | Inr s1 \<Rightarrow>
               (case ReservedInstances of
                  None \<Rightarrow> Inl KeyError
                | Some reserved \<Rightarrow>
                    (case reserved_loop region_name reserved (s1\<lparr>reserved_instances := []\<rparr>) of
                       Inl e \<Rightarrow> Inl e
                     | Inr s2 \<Rightarrow>
                         Inr (summary (report_used (report_unreserved (report_unused
                                (compute_diff s2)))))))))"

section \<open>Notions of the specification\<close>

text \<open>
  The definitions of this section are not part of the script: they name what the
  statements below are about.

  A record is a spot instance when it carries a \<open>SpotInstanceRequestId\<close>. A record
  counts for a key when it is not a spot instance, its type is the key's and its
  availability zone without the last character is the key's region.
\<close>

definition is_spot :: "ec2_instance \<Rightarrow> bool" where
  "is_spot inst \<longleftrightarrow> SpotInstanceRequestId inst \<noteq> None"

definition counts_for :: "placement_key \<Rightarrow> ec2_instance \<Rightarrow> bool" where
  "counts_for key inst \<longleftrightarrow>
     \<not> is_spot inst \<and> InstanceType inst = Some (fst key)
     \<and> map_option butlast (Placement_AvailabilityZone inst) = Some (snd key)"

text \<open>The lines line 31 writes for the spot instances of a list of records, in order.\<close>

definition disqualified_log :: "ec2_instance list \<Rightarrow> string list" where
  "disqualified_log insts =
     concat (map (\<lambda>inst. case InstanceId inst of
                            None \<Rightarrow> []
                          | Some iid \<Rightarrow> [''Disqualifying instance '' @ iid @ '': spot'' @ [CHR 0x0A]])
               (filter is_spot insts))"

text \<open>
  A reservation record reserves for a key when its type is the key's and the region of
  lines 47--52 is the key's region; its count is its \<open>InstanceCount\<close>.
\<close>

definition reserves :: "string \<Rightarrow> placement_key \<Rightarrow> reserved_instance \<Rightarrow> bool" where
  "reserves region_name key ri \<longleftrightarrow>
     RI_InstanceType ri = Some (fst key) \<and> reserved_region region_name ri = snd key"

definition count_of :: "reserved_instance \<Rightarrow> int" where
  "count_of ri = (case InstanceCount ri of None \<Rightarrow> 0 | Some n \<Rightarrow> n)"

text \<open>
  The region of a reservation as the specification words it: the availability zone
  without its last character when the field is present, else the session's region for
  scope \<open>"Region"\<close>, else \<open>"Unknown"\<close>.
\<close>

definition spec_region :: "string \<Rightarrow> reserved_instance \<Rightarrow> string" where
  "spec_region region_name ri =
     (case RI_AvailabilityZone ri of
        Some az \<Rightarrow> butlast az
      | None \<Rightarrow> if Scope ri = Some ''Region'' then region_name else ''Unknown'')"

text \<open>
  A record is complete when it carries the keys the script indexes on it: always
  \<open>InstanceId\<close> (line 31 or line 37), and \<open>InstanceType\<close> and the placement's
  \<open>AvailabilityZone\<close> (lines 33 and 34) unless it is a spot instance; on a reservation
  \<open>InstanceType\<close> and \<open>InstanceCount\<close> (lines 44 and 54).
\<close>

definition instance_complete :: "ec2_instance \<Rightarrow> bool" where
  "instance_complete inst \<longleftrightarrow>
     InstanceId inst \<noteq> None
     \<and> (SpotInstanceRequestId inst = None \<longrightarrow>
          InstanceType inst \<noteq> None \<and> Placement_AvailabilityZone inst \<noteq> None)"

definition reserved_complete :: "reserved_instance \<Rightarrow> bool" where
  "reserved_complete ri \<longleftrightarrow> RI_InstanceType ri \<noteq> None \<and> InstanceCount ri \<noteq> None"

text \<open>
  Well-formed input, as the specification has it: a running-instance record has its
  \<open>InstanceId\<close>, a non-empty \<open>InstanceType\<close> and an availability zone of at least two
  characters; a reservation record has a non-empty \<open>InstanceType\<close>, an \<open>InstanceCount\<close>
  of at least 1 and, when it has an availability zone, one of at least two characters.
\<close>

definition well_formed_instance :: "ec2_instance \<Rightarrow> bool" where
  "well_formed_instance inst \<longleftrightarrow>
     InstanceId inst \<noteq> None
     \<and> (case InstanceType inst of None \<Rightarrow> False | Some t \<Rightarrow> t \<noteq> [])
     \<and> (case Placement_AvailabilityZone inst of None \<Rightarrow> False | Some az \<Rightarrow> 2 \<le> length az)"

definition well_formed_reserved :: "reserved_instance \<Rightarrow> bool" where
  "well_formed_reserved ri \<longleftrightarrow>
     (case RI_InstanceType ri of None \<Rightarrow> False | Some t \<Rightarrow> t \<noteq> [])
     \<and> (case InstanceCount ri of None \<Rightarrow> False | Some n \<Rightarrow> 1 \<le> n)
     \<and> (case RI_AvailabilityZone ri of None \<Rightarrow> True | Some az \<Rightarrow> 2 \<le> length az)"

text \<open>The responses that carry their keys, built from the lists under them.\<close>

definition instances_response :: "ec2_instance list list \<Rightarrow> reservation list option" where
  "instances_response reservations = Some (map (\<lambda>instances. \<lparr>Instances = Some instances\<rparr>) reservations)"

text \<open>The variables of a state, the two output streams put aside.\<close>

definition variables :: "script_state \<Rightarrow> script_state" where
  "variables s = s\<lparr>stdout := [], stderr := []\<rparr>"

section \<open>A sample run\<close>

text \<open>
  Three on-demand \<open>m5.large\<close> instances and a spot one in \<open>eu-west-1\<close> against a
  reservation of two, two \<open>c5.xlarge\<close> instances in \<open>us-east-1\<close> against two
  reservations of one each, and a regional reservation of five \<open>t3.micro\<close> without any
  instance, in a session whose region is \<open>ap-south-1\<close>.
\<close>

definition blank_state :: script_state where
  "blank_state =
     \<lparr>running_instances = [], instance_mapping = [], reserved_instances = [],
      instance_diff = [], unused_reservations = [], unreserved_instances = [],
      used_reservations = [], qty_running_instances = 0, qty_reserved_instances = 0,
      stdout = [], stderr = []\<rparr>"

definition on_demand :: "string \<Rightarrow> string \<Rightarrow> string \<Rightarrow> ec2_instance" where
  "on_demand iid t az =
     \<lparr>InstanceId = Some iid, InstanceType = Some t, Placement_AvailabilityZone = Some az,
      SpotInstanceRequestId = None\<rparr>"

definition example_reservations :: "ec2_instance list list" where
  "example_reservations =
     [[on_demand ''i-1'' ''m5.large'' ''eu-west-1a'', on_demand ''i-2'' ''m5.large'' ''eu-west-1b''],
      [(on_demand ''i-3'' ''m5.large'' ''eu-west-1a'')\<lparr>SpotInstanceRequestId := Some ''sir-1''\<rparr>,
       on_demand ''i-4'' ''m5.large'' ''eu-west-1a''],
      [on_demand ''i-5'' ''c5.xlarge'' ''us-east-1a'', on_demand ''i-6'' ''c5.xlarge'' ''us-east-1b'']]"

definition example_reserved :: "reserved_instance list" where
  "example_reserved =
     [\<lparr>RI_InstanceType = Some ''m5.large'', RI_AvailabilityZone = Some ''eu-west-1a'',
       Scope = Some ''Availability Zone'', InstanceCount = Some 2\<rparr>,
      \<lparr>RI_InstanceType = Some ''c5.xlarge'', RI_AvailabilityZone = Some ''us-east-1a'',
       Scope = Some ''Availability Zone'', InstanceCount = Some 1\<rparr>,
      \<lparr>RI_InstanceType = Some ''t3.micro'', RI_AvailabilityZone = None,
       Scope = Some ''Region'', InstanceCount = Some 5\<rparr>,
      \<lparr>RI_InstanceType = Some ''c5.xlarge'', RI_AvailabilityZone = Some ''us-east-1c'',
       Scope = Some ''Availability Zone'', InstanceCount = Some 1\<rparr>]"

definition example_final :: script_state where
  "example_final =
     \<lparr>running_instances =
        [((''m5.large'', ''eu-west-1''), 3), ((''c5.xlarge'', ''us-east-1''), 2)],
      instance_mapping =
        [((''m5.large'', ''eu-west-1''), [''i-1'', ''i-2'', ''i-4'']),
         ((''c5.xlarge'', ''us-east-1''), [''i-5'', ''i-6''])],
      reserved_instances =
        [((''m5.large'', ''eu-west-1''), 2), ((''c5.xlarge'', ''us-east-1''), 2),
         ((''t3.micro'', ''ap-south-1''), 5)],
      instance_diff =
        [((''m5.large'', ''eu-west-1''), - 1), ((''c5.xlarge'', ''us-east-1''), 0),
         ((''t3.micro'', ''ap-south-1''), 5)],
      unused_reservations = [((''t3.micro'', ''ap-south-1''), 5)],
      unreserved_instances = [((''m5.large'', ''eu-west-1''), 1)],
      used_reservations = [((''c5.xlarge'', ''us-east-1''), 0)],
      qty_running_instances = 5,
      qty_reserved_instances = 9,
      stdout =
        [''UNUSED RESERVATION! (5) t3.micro ap-south-1'',
         ''Instance not reserved: (1) m5.large eu-west-1'',
         CHR 0x0A # ''Used Reservations:'',
         ''Reserved Instances (c5.xlarge us-east-1): i-5, i-6'',
         CHR 0x0A # ''(5) running on-demand instances'' @ CHR 0x0A # ''(9) reservations''],
      stderr = [''Disqualifying instance i-3: spot'' @ [CHR 0x0A]]\<rparr>"

section \<open>Verification\<close>

subsection \<open>Dictionaries\<close>

lemma update_append: "k \<notin> fst ` set d \<Longrightarrow> AList.update k v d = d @ [(k, v)]"
  by (induction d) auto

lemma dict_get_update:
  "dict_get (AList.update k v d) k' dflt = (if k' = k then v else dict_get d k' dflt)"
  by (simp add: dict_get_def update_conv')

lemma dict_keys_update: "set (dict_keys (AList.update k v d)) = insert k (set (dict_keys d))"
  using dom_update [of k v d] by (simp add: dict_keys_def)

lemma distinct_keys_update:
  "distinct (dict_keys d) \<Longrightarrow> distinct (dict_keys (AList.update k v d))"
  by (simp add: dict_keys_def distinct_update)

lemma dict_get_absent: "k \<notin> set (dict_keys d) \<Longrightarrow> dict_get d k dflt = dflt"
  by (simp add: dict_get_def dict_keys_def map_of_eq_None_iff [THEN iffD2])

lemma map_of_present: "k \<in> set (dict_keys d) \<Longrightarrow> map_of d k = Some (dict_get d k dflt)"
  by (cases "map_of d k") (auto simp: dict_get_def dict_keys_def map_of_eq_None_iff)

lemma fold_update_distinct:
  "distinct (dict_keys acc) \<Longrightarrow>
   distinct (dict_keys (fold (\<lambda>(k, v) d. AList.update k v d) xs acc))"
  by (induction xs arbitrary: acc) (auto simp: distinct_keys_update)

lemma fold_update_append:
  "distinct (map fst xs) \<Longrightarrow> fst ` set xs \<inter> fst ` set acc = {} \<Longrightarrow>
   fold (\<lambda>(k, v) d. AList.update k v d) xs acc = acc @ xs"
proof (induction xs arbitrary: acc)
  case Nil
  then show ?case by simp
next
  case (Cons x xs)
  obtain k v where x: "x = (k, v)" by (cases x)
  from Cons.prems have nk: "k \<notin> fst ` set acc" by (auto simp: x)
  have "fst ` set xs \<inter> fst ` set (acc @ [(k, v)]) = {}"
    using Cons.prems by (auto simp: x)
  with Cons.IH [of "acc @ [(k, v)]"] Cons.prems
  show ?case by (simp add: x update_append [OF nk])
qed

lemma dict_of_items_distinct: "distinct (map fst xs) \<Longrightarrow> dict_of_items xs = xs"
  using fold_update_append [of xs "[]"] by (simp add: dict_of_items_def)

lemma distinct_dict_of_items: "distinct (dict_keys (dict_of_items xs))"
  unfolding dict_of_items_def by (rule fold_update_distinct) (simp add: dict_keys_def)

subsection \<open>One running instance\<close>

lemma dict_get_dd_add:
  "dict_get (dd_add k n d) k' 0 = dict_get d k' 0 + (if k' = k then n else 0)"
  by (simp add: dd_add_def dict_get_update)

lemma dict_get_dd_append:
  "dict_get (dd_append k x d) k' [] = dict_get d k' [] @ (if k' = k then [x] else [])"
  by (simp add: dd_append_def dict_get_update)

lemma dict_keys_dd_add: "set (dict_keys (dd_add k n d)) = insert k (set (dict_keys d))"
  by (simp add: dd_add_def dict_keys_update)

lemma dict_keys_dd_append: "set (dict_keys (dd_append k x d)) = insert k (set (dict_keys d))"
  by (simp add: dd_append_def dict_keys_update)

lemma distinct_dd_add: "distinct (dict_keys d) \<Longrightarrow> distinct (dict_keys (dd_add k n d))"
  by (simp add: dd_add_def distinct_keys_update)

lemma distinct_dd_append: "distinct (dict_keys d) \<Longrightarrow> distinct (dict_keys (dd_append k x d))"
  by (simp add: dd_append_def distinct_keys_update)

lemma visit_instance_spot:
  "is_spot inst \<Longrightarrow> visit_instance inst s = Inr s' \<Longrightarrow>
   \<exists>iid. InstanceId inst = Some iid
     \<and> s' = s\<lparr>stderr := stderr s @ [''Disqualifying instance '' @ iid @ '': spot'' @ [CHR 0x0A]]\<rparr>"
  by (auto simp: visit_instance_def is_spot_def split: option.splits)

lemma visit_instance_counted:
  "\<not> is_spot inst \<Longrightarrow> visit_instance inst s = Inr s' \<Longrightarrow>
   \<exists>t az iid. InstanceType inst = Some t \<and> Placement_AvailabilityZone inst = Some az
     \<and> InstanceId inst = Some iid
     \<and> s' = s\<lparr>running_instances := dd_add (t, butlast az) 1 (running_instances s),
              instance_mapping := dd_append (t, butlast az) iid (instance_mapping s)\<rparr>"
  by (auto simp: visit_instance_def is_spot_def Let_def split: option.splits)

lemma visit_instance_running:
  assumes "visit_instance inst s = Inr s'"
  shows "dict_get (running_instances s') k 0 =
         dict_get (running_instances s) k 0 + (if counts_for k inst then 1 else 0)"
proof (cases "is_spot inst")
  case True
  with visit_instance_spot [OF True assms] show ?thesis
    by (auto simp: counts_for_def)
next
  case False
  from visit_instance_counted [OF False assms] obtain t az where
    f: "InstanceType inst = Some t" "Placement_AvailabilityZone inst = Some az"
       "running_instances s' = dd_add (t, butlast az) 1 (running_instances s)"
    by auto
  have "counts_for k inst \<longleftrightarrow> k = (t, butlast az)"
    using False f by (auto simp: counts_for_def)
  then show ?thesis by (simp add: f dict_get_dd_add)
qed

lemma visit_instance_mapping:
  assumes "visit_instance inst s = Inr s'"
  shows "map Some (dict_get (instance_mapping s') k []) =
         map Some (dict_get (instance_mapping s) k [])
           @ (if counts_for k inst then [InstanceId inst] else [])"
proof (cases "is_spot inst")
  case True
  with visit_instance_spot [OF True assms] show ?thesis
    by (auto simp: counts_for_def)
next
  case False
  from visit_instance_counted [OF False assms] obtain t az iid where
    f: "InstanceType inst = Some t" "Placement_AvailabilityZone inst = Some az"
       "InstanceId inst = Some iid"
       "instance_mapping s' = dd_append (t, butlast az) iid (instance_mapping s)"
    by auto
  have "counts_for k inst \<longleftrightarrow> k = (t, butlast az)"
    using False f by (auto simp: counts_for_def)
  then show ?thesis by (simp add: f dict_get_dd_append)
qed

lemma visit_instance_keys:
  assumes "visit_instance inst s = Inr s'"
  shows "set (dict_keys (running_instances s')) =
           set (dict_keys (running_instances s)) \<union> {k. counts_for k inst}"
    and "set (dict_keys (instance_mapping s')) =
           set (dict_keys (instance_mapping s)) \<union> {k. counts_for k inst}"
proof -
  show "set (dict_keys (running_instances s')) =
           set (dict_keys (running_instances s)) \<union> {k. counts_for k inst}"
  proof (cases "is_spot inst")
    case True
    with visit_instance_spot [OF True assms] show ?thesis
      by (auto simp: counts_for_def)
  next
    case False
    from visit_instance_counted [OF False assms] obtain t az where
      f: "InstanceType inst = Some t" "Placement_AvailabilityZone inst = Some az"
         "running_instances s' = dd_add (t, butlast az) 1 (running_instances s)"
      by auto
    have "{k. counts_for k inst} = {(t, butlast az)}"
      using False f by (auto simp: counts_for_def)
    then show ?thesis by (simp add: f dict_keys_dd_add)
  qed
  show "set (dict_keys (instance_mapping s')) =
           set (dict_keys (instance_mapping s)) \<union> {k. counts_for k inst}"
  proof (cases "is_spot inst")
    case True
    with visit_instance_spot [OF True assms] show ?thesis
      by (auto simp: counts_for_def)
  next
    case False
    from visit_instance_counted [OF False assms] obtain t az iid where
      f: "InstanceType inst = Some t" "Placement_AvailabilityZone inst = Some az"
         "instance_mapping s' = dd_append (t, butlast az) iid (instance_mapping s)"
      by auto
    have "{k. counts_for k inst} = {(t, butlast az)}"
      using False f by (auto simp: counts_for_def)
    then show ?thesis by (simp add: f dict_keys_dd_append)
  qed
qed

lemma visit_instance_distinct:
  assumes "visit_instance inst s = Inr s'"
  shows "distinct (dict_keys (running_instances s)) \<Longrightarrow> distinct (dict_keys (running_instances s'))"
    and "distinct (dict_keys (instance_mapping s)) \<Longrightarrow> distinct (dict_keys (instance_mapping s'))"
  using assms visit_instance_spot [of inst s s'] visit_instance_counted [of inst s s']
  by (cases "is_spot inst"; auto simp: distinct_dd_add distinct_dd_append)+

lemma visit_instance_stderr:
  assumes "visit_instance inst s = Inr s'"
  shows "stderr s' = stderr s @ disqualified_log [inst]"
  using assms visit_instance_spot [of inst s s'] visit_instance_counted [of inst s s']
  by (cases "is_spot inst") (auto simp: disqualified_log_def)

lemma visit_instance_frame:
  assumes "visit_instance inst s = Inr s'"
  shows "s' = s\<lparr>running_instances := running_instances s',
               instance_mapping := instance_mapping s', stderr := stderr s'\<rparr>"
  using assms visit_instance_spot [of inst s s'] visit_instance_counted [of inst s s']
  by (cases "is_spot inst") auto

subsection \<open>The loop over the running instances\<close>

lemma instances_loop_append:
  "instances_loop (xs @ ys) s =
     (case instances_loop xs s of Inl e \<Rightarrow> Inl e | Inr s' \<Rightarrow> instances_loop ys s')"
  by (induction xs arbitrary: s) (auto split: sum.splits)

lemma reservations_loop_concat:
  "reservations_loop reservations s = instances_loop (concat reservations) s"
  by (induction reservations arbitrary: s) (auto simp: instances_loop_append split: sum.splits)

lemma instances_loop_running:
  "instances_loop insts s = Inr s' \<Longrightarrow>
   dict_get (running_instances s') k 0 =
     dict_get (running_instances s) k 0 + int (length (filter (counts_for k) insts))"
proof (induction insts arbitrary: s)
  case Nil
  then show ?case by simp
next
  case (Cons inst insts)
  then obtain s1 where v: "visit_instance inst s = Inr s1" and r: "instances_loop insts s1 = Inr s'"
    by (auto split: sum.splits)
  show ?case
    using Cons.IH [OF r] visit_instance_running [OF v, of k] by simp
qed

lemma instances_loop_mapping:
  "instances_loop insts s = Inr s' \<Longrightarrow>
   map Some (dict_get (instance_mapping s') k []) =
     map Some (dict_get (instance_mapping s) k []) @ map InstanceId (filter (counts_for k) insts)"
proof (induction insts arbitrary: s)
  case Nil
  then show ?case by simp
next
  case (Cons inst insts)
  then obtain s1 where v: "visit_instance inst s = Inr s1" and r: "instances_loop insts s1 = Inr s'"
    by (auto split: sum.splits)
  show ?case
    using Cons.IH [OF r] visit_instance_mapping [OF v, of k] by simp
qed

lemma instances_loop_keys:
  "instances_loop insts s = Inr s' \<Longrightarrow>
   set (dict_keys (running_instances s')) =
     set (dict_keys (running_instances s)) \<union> {k. \<exists>inst \<in> set insts. counts_for k inst}
   \<and> set (dict_keys (instance_mapping s')) =
     set (dict_keys (instance_mapping s)) \<union> {k. \<exists>inst \<in> set insts. counts_for k inst}"
proof (induction insts arbitrary: s)
  case Nil
  then show ?case by simp
next
  case (Cons inst insts)
  then obtain s1 where v: "visit_instance inst s = Inr s1" and r: "instances_loop insts s1 = Inr s'"
    by (auto split: sum.splits)
  show ?case
    using Cons.IH [OF r] visit_instance_keys [OF v] by auto
qed

lemma instances_loop_distinct:
  "instances_loop insts s = Inr s' \<Longrightarrow>
   (distinct (dict_keys (running_instances s)) \<longrightarrow> distinct (dict_keys (running_instances s')))
   \<and> (distinct (dict_keys (instance_mapping s)) \<longrightarrow> distinct (dict_keys (instance_mapping s')))"
proof (induction insts arbitrary: s)
  case Nil
  then show ?case by simp
next
  case (Cons inst insts)
  then obtain s1 where v: "visit_instance inst s = Inr s1" and r: "instances_loop insts s1 = Inr s'"
    by (auto split: sum.splits)
  show ?case
    using Cons.IH [OF r] visit_instance_distinct [OF v] by blast
qed

lemma disqualified_log_Cons:
  "disqualified_log (inst # insts) = disqualified_log [inst] @ disqualified_log insts"
  by (simp add: disqualified_log_def)

lemma instances_loop_stderr:
  "instances_loop insts s = Inr s' \<Longrightarrow> stderr s' = stderr s @ disqualified_log insts"
proof (induction insts arbitrary: s)
  case Nil
  then show ?case by (simp add: disqualified_log_def)
next
  case (Cons inst insts)
  then obtain s1 where v: "visit_instance inst s = Inr s1" and r: "instances_loop insts s1 = Inr s'"
    by (auto split: sum.splits)
  show ?case
    using Cons.IH [OF r] visit_instance_stderr [OF v] disqualified_log_Cons [of inst insts]
    by simp
qed

lemma visit_instance_frame_ex:
  assumes "visit_instance inst s = Inr s'"
  shows "\<exists>r m e. s' = s\<lparr>running_instances := r, instance_mapping := m, stderr := e\<rparr>"
proof (cases "is_spot inst")
  case True
  from visit_instance_spot [OF True assms] obtain e where "s' = s\<lparr>stderr := e\<rparr>" by blast
  then have "s' = s\<lparr>running_instances := running_instances s,
                    instance_mapping := instance_mapping s, stderr := e\<rparr>" by simp
  then show ?thesis by blast
next
  case False
  from visit_instance_counted [OF False assms] obtain r m where
    "s' = s\<lparr>running_instances := r, instance_mapping := m\<rparr>" by blast
  then have "s' = s\<lparr>running_instances := r, instance_mapping := m, stderr := stderr s\<rparr>"
    by simp
  then show ?thesis by blast
qed

lemma instances_loop_frame:
  "instances_loop insts s = Inr s' \<Longrightarrow>
   \<exists>r m e. s' = s\<lparr>running_instances := r, instance_mapping := m, stderr := e\<rparr>"
proof (induction insts arbitrary: s)
  case Nil
  then have "s' = s\<lparr>running_instances := running_instances s,
                    instance_mapping := instance_mapping s, stderr := stderr s\<rparr>"
    by simp
  then show ?case by blast
next
  case (Cons inst insts)
  then obtain s1 where v: "visit_instance inst s = Inr s1" and r: "instances_loop insts s1 = Inr s'"
    by (auto split: sum.splits)
  from Cons.IH [OF r] obtain r m e where
    a: "s' = s1\<lparr>running_instances := r, instance_mapping := m, stderr := e\<rparr>"
    by blast
  from visit_instance_frame_ex [OF v] obtain r1 m1 e1 where
    b: "s1 = s\<lparr>running_instances := r1, instance_mapping := m1, stderr := e1\<rparr>"
    by blast
  have "s' = s\<lparr>running_instances := r, instance_mapping := m, stderr := e\<rparr>"
    by (simp add: a b)
  then show ?case by blast
qed

subsection \<open>Spot instances leave no trace in the dictionaries\<close>

lemma visit_instance_set_stderr:
  "\<not> is_spot inst \<Longrightarrow> visit_instance inst s = Inr s1 \<Longrightarrow>
   visit_instance inst (s\<lparr>stderr := e\<rparr>) = Inr (s1\<lparr>stderr := e\<rparr>)"
  by (auto simp: visit_instance_def is_spot_def Let_def split: option.splits)

lemma instances_loop_drop_spot:
  "instances_loop insts s = Inr s' \<Longrightarrow>
   instances_loop (filter (\<lambda>inst. \<not> is_spot inst) insts) (s\<lparr>stderr := e\<rparr>) = Inr (s'\<lparr>stderr := e\<rparr>)"
proof (induction insts arbitrary: s)
  case Nil
  then show ?case by simp
next
  case (Cons inst insts)
  then obtain s1 where v: "visit_instance inst s = Inr s1" and r: "instances_loop insts s1 = Inr s'"
    by (auto split: sum.splits)
  show ?case
  proof (cases "is_spot inst")
    case True
    from visit_instance_spot [OF True v] have "s1\<lparr>stderr := e\<rparr> = s\<lparr>stderr := e\<rparr>" by auto
    with Cons.IH [OF r] True show ?thesis by simp
  next
    case False
    with Cons.IH [OF r] visit_instance_set_stderr [OF False v, of e] show ?thesis by simp
  qed
qed

subsection \<open>The loop over the reservations\<close>

lemma sum_values_update:
  fixes d :: "('k \<times> int) list"
  shows "sum_list (dict_values (AList.update k v d)) = sum_list (dict_values d) + v - dict_get d k 0"
  by (induction d) (auto simp: dict_values_def dict_get_def)

lemma sum_values_dd_add: "sum_list (dict_values (dd_add k n d)) = sum_list (dict_values d) + n"
  by (simp add: dd_add_def sum_values_update)

lemma visit_reserved_Inr:
  "visit_reserved region_name ri s = Inr s' \<Longrightarrow>
   \<exists>t n. RI_InstanceType ri = Some t \<and> InstanceCount ri = Some n
     \<and> s' = s\<lparr>reserved_instances :=
                dd_add (t, reserved_region region_name ri) n (reserved_instances s)\<rparr>"
  by (auto simp: visit_reserved_def Let_def split: option.splits)

lemma visit_reserved_get:
  assumes "visit_reserved region_name ri s = Inr s'"
  shows "dict_get (reserved_instances s') k 0 =
         dict_get (reserved_instances s) k 0 + (if reserves region_name k ri then count_of ri else 0)"
proof -
  from visit_reserved_Inr [OF assms] obtain t n where
    f: "RI_InstanceType ri = Some t" "InstanceCount ri = Some n"
       "reserved_instances s' = dd_add (t, reserved_region region_name ri) n (reserved_instances s)"
    by auto
  have "reserves region_name k ri \<longleftrightarrow> k = (t, reserved_region region_name ri)"
    using f by (auto simp: reserves_def)
  then show ?thesis by (simp add: f dict_get_dd_add count_of_def)
qed

lemma visit_reserved_keys:
  assumes "visit_reserved region_name ri s = Inr s'"
  shows "set (dict_keys (reserved_instances s')) =
           set (dict_keys (reserved_instances s)) \<union> {k. reserves region_name k ri}"
proof -
  from visit_reserved_Inr [OF assms] obtain t n where
    f: "RI_InstanceType ri = Some t"
       "reserved_instances s' = dd_add (t, reserved_region region_name ri) n (reserved_instances s)"
    by auto
  have "{k. reserves region_name k ri} = {(t, reserved_region region_name ri)}"
    using f by (auto simp: reserves_def)
  then show ?thesis by (simp add: f dict_keys_dd_add)
qed

lemma visit_reserved_distinct:
  "visit_reserved region_name ri s = Inr s' \<Longrightarrow> distinct (dict_keys (reserved_instances s)) \<Longrightarrow>
   distinct (dict_keys (reserved_instances s'))"
  using visit_reserved_Inr [of region_name ri s s'] by (auto simp: distinct_dd_add)

lemma visit_reserved_sum:
  "visit_reserved region_name ri s = Inr s' \<Longrightarrow>
   sum_list (dict_values (reserved_instances s')) =
     sum_list (dict_values (reserved_instances s)) + count_of ri"
  using visit_reserved_Inr [of region_name ri s s'] by (auto simp: sum_values_dd_add count_of_def)

lemma reserved_loop_get:
  "reserved_loop region_name rsv s = Inr s' \<Longrightarrow>
   dict_get (reserved_instances s') k 0 =
     dict_get (reserved_instances s) k 0
       + sum_list (map count_of (filter (reserves region_name k) rsv))"
proof (induction rsv arbitrary: s)
  case Nil
  then show ?case by simp
next
  case (Cons ri rsv)
  then obtain s1 where v: "visit_reserved region_name ri s = Inr s1"
    and r: "reserved_loop region_name rsv s1 = Inr s'"
    by (auto split: sum.splits)
  show ?case using Cons.IH [OF r] visit_reserved_get [OF v, of k] by simp
qed

lemma reserved_loop_keys:
  "reserved_loop region_name rsv s = Inr s' \<Longrightarrow>
   set (dict_keys (reserved_instances s')) =
     set (dict_keys (reserved_instances s)) \<union> {k. \<exists>ri \<in> set rsv. reserves region_name k ri}"
proof (induction rsv arbitrary: s)
  case Nil
  then show ?case by simp
next
  case (Cons ri rsv)
  then obtain s1 where v: "visit_reserved region_name ri s = Inr s1"
    and r: "reserved_loop region_name rsv s1 = Inr s'"
    by (auto split: sum.splits)
  show ?case using Cons.IH [OF r] visit_reserved_keys [OF v] by auto
qed

lemma reserved_loop_distinct:
  "reserved_loop region_name rsv s = Inr s' \<Longrightarrow> distinct (dict_keys (reserved_instances s)) \<Longrightarrow>
   distinct (dict_keys (reserved_instances s'))"
proof (induction rsv arbitrary: s)
  case Nil
  then show ?case by simp
next
  case (Cons ri rsv)
  then obtain s1 where v: "visit_reserved region_name ri s = Inr s1"
    and r: "reserved_loop region_name rsv s1 = Inr s'"
    by (auto split: sum.splits)
  show ?case using Cons.IH [OF r] visit_reserved_distinct [OF v] Cons.prems(2) by blast
qed

lemma reserved_loop_sum:
  "reserved_loop region_name rsv s = Inr s' \<Longrightarrow>
   sum_list (dict_values (reserved_instances s')) =
     sum_list (dict_values (reserved_instances s)) + sum_list (map count_of rsv)"
proof (induction rsv arbitrary: s)
  case Nil
  then show ?case by simp
next
  case (Cons ri rsv)
  then obtain s1 where v: "visit_reserved region_name ri s = Inr s1"
    and r: "reserved_loop region_name rsv s1 = Inr s'"
    by (auto split: sum.splits)
  show ?case using Cons.IH [OF r] visit_reserved_sum [OF v] by simp
qed

lemma reserved_loop_frame:
  "reserved_loop region_name rsv s = Inr s' \<Longrightarrow> \<exists>d. s' = s\<lparr>reserved_instances := d\<rparr>"
proof (induction rsv arbitrary: s)
  case Nil
  then have "s' = s\<lparr>reserved_instances := reserved_instances s\<rparr>" by simp
  then show ?case by blast
next
  case (Cons ri rsv)
  then obtain s1 where v: "visit_reserved region_name ri s = Inr s1"
    and r: "reserved_loop region_name rsv s1 = Inr s'"
    by (auto split: sum.splits)
  from Cons.IH [OF r] obtain d where a: "s' = s1\<lparr>reserved_instances := d\<rparr>" by blast
  from visit_reserved_Inr [OF v] obtain d1 where b: "s1 = s\<lparr>reserved_instances := d1\<rparr>" by blast
  have "s' = s\<lparr>reserved_instances := d\<rparr>" by (simp add: a b)
  then show ?case by blast
qed

subsection \<open>The sum of the running counts\<close>

lemma visit_instance_sum:
  assumes "visit_instance inst s = Inr s'"
  shows "sum_list (dict_values (running_instances s')) =
         sum_list (dict_values (running_instances s)) + (if is_spot inst then 0 else 1)"
  using assms visit_instance_spot [of inst s s'] visit_instance_counted [of inst s s']
  by (cases "is_spot inst") (auto simp: sum_values_dd_add)

lemma instances_loop_sum:
  "instances_loop insts s = Inr s' \<Longrightarrow>
   sum_list (dict_values (running_instances s')) =
     sum_list (dict_values (running_instances s))
       + int (length (filter (\<lambda>inst. \<not> is_spot inst) insts))"
proof (induction insts arbitrary: s)
  case Nil
  then show ?case by simp
next
  case (Cons inst insts)
  then obtain s1 where v: "visit_instance inst s = Inr s1" and r: "instances_loop insts s1 = Inr s'"
    by (auto split: sum.splits)
  show ?case using Cons.IH [OF r] visit_instance_sum [OF v] by simp
qed

subsection \<open>The differences\<close>

lemma fold_update_map_of:
  "map_of (fold (\<lambda>(k, v) d. AList.update k v d) (map (\<lambda>x. (x, f x)) ks) acc) k =
     (if k \<in> set ks then Some (f k) else map_of acc k)"
  by (induction ks arbitrary: acc) (auto simp: update_conv')

lemma map_of_dict_comprehension:
  "map_of (dict_of_items (map (\<lambda>x. (x, f x)) ks)) k = (if k \<in> set ks then Some (f k) else None)"
  by (simp add: dict_of_items_def fold_update_map_of)

lemma running_only_loop_frame:
  "\<exists>d. running_only_loop ks s = s\<lparr>instance_diff := d\<rparr>"
proof (induction ks arbitrary: s)
  case Nil
  have "running_only_loop [] s = s\<lparr>instance_diff := instance_diff s\<rparr>" by simp
  then show ?case by blast
next
  case (Cons k ks)
  show ?case
  proof (cases "dict_contains (reserved_instances s) k")
    case True
    with Cons.IH [of s] show ?thesis by simp
  next
    case False
    let ?s1 = "s\<lparr>instance_diff := AList.update k (- dict_get (running_instances s) k 0) (instance_diff s)\<rparr>"
    from Cons.IH [of ?s1] obtain d where "running_only_loop ks ?s1 = ?s1\<lparr>instance_diff := d\<rparr>"
      by blast
    then have "running_only_loop (k # ks) s = s\<lparr>instance_diff := d\<rparr>"
      using False by simp
    then show ?thesis by blast
  qed
qed

lemma running_only_loop_map_of:
  "map_of (instance_diff (running_only_loop ks s)) k =
     (if k \<in> set ks \<and> \<not> dict_contains (reserved_instances s) k
      then Some (- dict_get (running_instances s) k 0)
      else map_of (instance_diff s) k)"
  by (induction ks arbitrary: s) (auto simp: update_conv')

lemma running_only_loop_distinct:
  "distinct (dict_keys (instance_diff s)) \<Longrightarrow>
   distinct (dict_keys (instance_diff (running_only_loop ks s)))"
  by (induction ks arbitrary: s) (auto simp: distinct_keys_update)

lemma compute_diff_frame: "\<exists>d. compute_diff s = s\<lparr>instance_diff := d\<rparr>"
proof -
  let ?s1 = "s\<lparr>instance_diff :=
                  dict_of_items
                    (map (\<lambda>x. (x, dict_get (reserved_instances s) x 0
                                   - dict_get (running_instances s) x 0))
                       (dict_keys (reserved_instances s)))\<rparr>"
  from running_only_loop_frame [of "dict_keys (running_instances ?s1)" ?s1]
  obtain d where "running_only_loop (dict_keys (running_instances ?s1)) ?s1 = ?s1\<lparr>instance_diff := d\<rparr>"
    by blast
  then have "compute_diff s = s\<lparr>instance_diff := d\<rparr>"
    by (simp add: compute_diff_def Let_def)
  then show ?thesis by blast
qed

lemma compute_diff_map_of:
  "map_of (instance_diff (compute_diff s)) k =
     (if k \<in> set (dict_keys (reserved_instances s))
      then Some (dict_get (reserved_instances s) k 0 - dict_get (running_instances s) k 0)
      else if k \<in> set (dict_keys (running_instances s))
      then Some (- dict_get (running_instances s) k 0)
      else None)"
  by (simp add: compute_diff_def Let_def running_only_loop_map_of map_of_dict_comprehension
      dict_contains_def)

lemma compute_diff_distinct: "distinct (dict_keys (instance_diff (compute_diff s)))"
  by (simp add: compute_diff_def Let_def running_only_loop_distinct distinct_dict_of_items)

lemma compute_diff_keys:
  "set (dict_keys (instance_diff (compute_diff s))) =
     set (dict_keys (reserved_instances s)) \<union> set (dict_keys (running_instances s))"
proof -
  have "\<And>k. k \<in> set (dict_keys (instance_diff (compute_diff s))) \<longleftrightarrow>
             map_of (instance_diff (compute_diff s)) k \<noteq> None"
    by (simp add: dict_keys_def map_of_eq_None_iff)
  then show ?thesis by (auto simp: compute_diff_map_of split: if_splits)
qed

subsection \<open>The bucket comprehensions\<close>

lemma distinct_keys_filter:
  "distinct (dict_keys d) \<Longrightarrow> distinct (map fst (filter P d))"
  by (simp add: dict_keys_def distinct_map_filter)

lemma bucket_filter:
  "distinct (dict_keys d) \<Longrightarrow> dict_of_items (filter P d) = filter P d"
  by (simp add: dict_of_items_distinct distinct_keys_filter)

lemma bucket_negate:
  fixes d :: "('k \<times> int) list"
  assumes "distinct (dict_keys d)"
  shows "dict_of_items (map (\<lambda>(key, value). (key, - value)) (filter P d)) =
         map (\<lambda>(key, value). (key, - value)) (filter P d)"
proof -
  have "fst \<circ> (\<lambda>(key, value). (key, - value)) = (fst :: 'k \<times> int \<Rightarrow> 'k)"
    by (auto simp: fun_eq_iff)
  then have "distinct (map fst (map (\<lambda>(key, value). (key, - value)) (filter P d)))"
    using distinct_keys_filter [OF assms, of P] by simp
  then show ?thesis by (rule dict_of_items_distinct)
qed

subsection \<open>The reports and the final state\<close>

lemma script_Inr:
  assumes "script rn res rsv s0 = Inr sf"
  obtains s1 s2 where
    "instances_loop (concat res) (s0\<lparr>running_instances := [], instance_mapping := []\<rparr>) = Inr s1"
    "reserved_loop rn rsv (s1\<lparr>reserved_instances := []\<rparr>) = Inr s2"
    "sf = summary (report_used (report_unreserved (report_unused (compute_diff s2))))"
  using assms by (auto simp: script_def reservations_loop_concat split: sum.splits)

lemma report_unused_frame:
  "\<exists>out. report_unused s =
     s\<lparr>unused_reservations :=
         dict_of_items (filter (\<lambda>(key, value). value > 0) (instance_diff s)),
       stdout := out\<rparr>"
  unfolding report_unused_def Let_def by (rule if_split [THEN iffD2]) blast

lemma report_unreserved_frame:
  "\<exists>out. report_unreserved s =
     s\<lparr>unreserved_instances :=
         dict_of_items (map (\<lambda>(key, value). (key, - value))
                          (filter (\<lambda>(key, value). value < 0) (instance_diff s))),
       stdout := out\<rparr>"
  unfolding report_unreserved_def Let_def by (rule if_split [THEN iffD2]) blast

lemma report_used_frame:
  "\<exists>out. report_used s =
     s\<lparr>used_reservations :=
         dict_of_items (filter (\<lambda>(key, value). value = 0) (instance_diff s)),
       stdout := out\<rparr>"
  unfolding report_used_def Let_def by (rule if_split [THEN iffD2]) blast

lemma summary_frame:
  "\<exists>out. summary s =
     s\<lparr>qty_running_instances := sum_list (dict_values (running_instances s)),
       qty_reserved_instances := sum_list (dict_values (reserved_instances s)),
       stdout := out\<rparr>"
proof -
  have "summary s =
     s\<lparr>qty_running_instances := sum_list (dict_values (running_instances s)),
       qty_reserved_instances := sum_list (dict_values (reserved_instances s)),
       stdout := stdout (summary s)\<rparr>"
    by (simp add: summary_def Let_def)
  then show ?thesis ..
qed

lemma reports_fields:
  fixes s2 :: script_state
  defines "sf \<equiv> summary (report_used (report_unreserved (report_unused (compute_diff s2))))"
  shows "running_instances sf = running_instances s2"
    and "instance_mapping sf = instance_mapping s2"
    and "reserved_instances sf = reserved_instances s2"
    and "instance_diff sf = instance_diff (compute_diff s2)"
    and "unused_reservations sf =
           dict_of_items (filter (\<lambda>(key, value). value > 0) (instance_diff sf))"
    and "unreserved_instances sf =
           dict_of_items (map (\<lambda>(key, value). (key, - value))
                            (filter (\<lambda>(key, value). value < 0) (instance_diff sf)))"
    and "used_reservations sf =
           dict_of_items (filter (\<lambda>(key, value). value = 0) (instance_diff sf))"
    and "qty_running_instances sf = sum_list (dict_values (running_instances sf))"
    and "qty_reserved_instances sf = sum_list (dict_values (reserved_instances sf))"
    and "stderr sf = stderr s2"
proof -
  obtain d where d: "compute_diff s2 = s2\<lparr>instance_diff := d\<rparr>"
    using compute_diff_frame [of s2] by blast
  define a where "a = compute_diff s2"
  obtain o1 where b: "report_unused a =
     a\<lparr>unused_reservations :=
         dict_of_items (filter (\<lambda>(key, value). value > 0) (instance_diff a)), stdout := o1\<rparr>"
    using report_unused_frame [of a] by blast
  define b where "b = report_unused a"
  obtain o2 where c: "report_unreserved b =
     b\<lparr>unreserved_instances :=
         dict_of_items (map (\<lambda>(key, value). (key, - value))
                          (filter (\<lambda>(key, value). value < 0) (instance_diff b))),
       stdout := o2\<rparr>"
    using report_unreserved_frame [of b] by blast
  define c where "c = report_unreserved b"
  obtain o3 where e: "report_used c =
     c\<lparr>used_reservations :=
         dict_of_items (filter (\<lambda>(key, value). value = 0) (instance_diff c)), stdout := o3\<rparr>"
    using report_used_frame [of c] by blast
  define e where "e = report_used c"
  obtain o4 where f: "summary e =
     e\<lparr>qty_running_instances := sum_list (dict_values (running_instances e)),
       qty_reserved_instances := sum_list (dict_values (reserved_instances e)),
       stdout := o4\<rparr>"
    using summary_frame [of e] by blast
  have sf: "sf = summary e" by (simp add: sf_def e_def c_def b_def a_def)
  have fa: "running_instances a = running_instances s2" "instance_mapping a = instance_mapping s2"
    "reserved_instances a = reserved_instances s2" "stderr a = stderr s2"
    by (simp_all add: a_def d)
  have fb: "running_instances b = running_instances a" "instance_mapping b = instance_mapping a"
    "reserved_instances b = reserved_instances a" "stderr b = stderr a"
    "instance_diff b = instance_diff a"
    "unused_reservations b = dict_of_items (filter (\<lambda>(key, value). value > 0) (instance_diff a))"
    using b by (simp_all add: b_def)
  have fc: "running_instances c = running_instances b" "instance_mapping c = instance_mapping b"
    "reserved_instances c = reserved_instances b" "stderr c = stderr b"
    "instance_diff c = instance_diff b" "unused_reservations c = unused_reservations b"
    "unreserved_instances c = dict_of_items (map (\<lambda>(key, value). (key, - value))
                          (filter (\<lambda>(key, value). value < 0) (instance_diff b)))"
    using c by (simp_all add: c_def)
  have fe: "running_instances e = running_instances c" "instance_mapping e = instance_mapping c"
    "reserved_instances e = reserved_instances c" "stderr e = stderr c"
    "instance_diff e = instance_diff c" "unused_reservations e = unused_reservations c"
    "unreserved_instances e = unreserved_instances c"
    "used_reservations e = dict_of_items (filter (\<lambda>(key, value). value = 0) (instance_diff c))"
    using e by (simp_all add: e_def)
  have ff: "running_instances sf = running_instances e" "instance_mapping sf = instance_mapping e"
    "reserved_instances sf = reserved_instances e" "stderr sf = stderr e"
    "instance_diff sf = instance_diff e" "unused_reservations sf = unused_reservations e"
    "unreserved_instances sf = unreserved_instances e"
    "used_reservations sf = used_reservations e"
    "qty_running_instances sf = sum_list (dict_values (running_instances e))"
    "qty_reserved_instances sf = sum_list (dict_values (reserved_instances e))"
    using f by (simp_all add: sf)
  show "running_instances sf = running_instances s2"
    and "instance_mapping sf = instance_mapping s2"
    and "reserved_instances sf = reserved_instances s2"
    and "instance_diff sf = instance_diff (compute_diff s2)"
    and "unused_reservations sf =
           dict_of_items (filter (\<lambda>(key, value). value > 0) (instance_diff sf))"
    and "unreserved_instances sf =
           dict_of_items (map (\<lambda>(key, value). (key, - value))
                            (filter (\<lambda>(key, value). value < 0) (instance_diff sf)))"
    and "used_reservations sf =
           dict_of_items (filter (\<lambda>(key, value). value = 0) (instance_diff sf))"
    and "qty_running_instances sf = sum_list (dict_values (running_instances sf))"
    and "qty_reserved_instances sf = sum_list (dict_values (reserved_instances sf))"
    and "stderr sf = stderr s2"
    by (simp_all add: fa fb fc fe ff a_def [symmetric])
qed

lemma dict_get_Nil [simp]: "dict_get [] k dflt = dflt"
  by (simp add: dict_get_def)

lemma dict_keys_Nil [simp]: "dict_keys [] = []"
  by (simp add: dict_keys_def)

lemma dict_values_Nil [simp]: "dict_values [] = []"
  by (simp add: dict_values_def)

lemma script_running:
  assumes "script rn res rsv s0 = Inr sf"
  shows "dict_get (running_instances sf) k 0 = int (length (filter (counts_for k) (concat res)))"
    and "map Some (dict_get (instance_mapping sf) k []) =
           map InstanceId (filter (counts_for k) (concat res))"
    and "set (dict_keys (running_instances sf)) = {k. \<exists>inst \<in> set (concat res). counts_for k inst}"
    and "set (dict_keys (instance_mapping sf)) = {k. \<exists>inst \<in> set (concat res). counts_for k inst}"
    and "distinct (dict_keys (running_instances sf))"
    and "distinct (dict_keys (instance_mapping sf))"
    and "qty_running_instances sf = int (length (filter (\<lambda>inst. \<not> is_spot inst) (concat res)))"
    and "stderr sf = stderr s0 @ disqualified_log (concat res)"
proof -
  from assms obtain s1 s2 where
    l1: "instances_loop (concat res) (s0\<lparr>running_instances := [], instance_mapping := []\<rparr>) = Inr s1"
    and l2: "reserved_loop rn rsv (s1\<lparr>reserved_instances := []\<rparr>) = Inr s2"
    and sf: "sf = summary (report_used (report_unreserved (report_unused (compute_diff s2))))"
    by (rule script_Inr)
  from reserved_loop_frame [OF l2] obtain d where "s2 = s1\<lparr>reserved_instances := d\<rparr>"
    by auto
  then have eq: "running_instances sf = running_instances s1"
    "instance_mapping sf = instance_mapping s1" "stderr sf = stderr s1"
    "qty_running_instances sf = sum_list (dict_values (running_instances s1))"
    by (simp_all add: sf reports_fields)
  show "dict_get (running_instances sf) k 0 = int (length (filter (counts_for k) (concat res)))"
    using instances_loop_running [OF l1, of k] by (simp add: eq)
  show "map Some (dict_get (instance_mapping sf) k []) =
           map InstanceId (filter (counts_for k) (concat res))"
    using instances_loop_mapping [OF l1, of k] by (simp add: eq)
  show "set (dict_keys (running_instances sf)) = {k. \<exists>inst \<in> set (concat res). counts_for k inst}"
    using instances_loop_keys [OF l1] by (simp add: eq)
  show "set (dict_keys (instance_mapping sf)) = {k. \<exists>inst \<in> set (concat res). counts_for k inst}"
    using instances_loop_keys [OF l1] by (simp add: eq)
  show "distinct (dict_keys (running_instances sf))"
    using instances_loop_distinct [OF l1] by (simp add: eq)
  show "distinct (dict_keys (instance_mapping sf))"
    using instances_loop_distinct [OF l1] by (simp add: eq)
  show "qty_running_instances sf = int (length (filter (\<lambda>inst. \<not> is_spot inst) (concat res)))"
    using instances_loop_sum [OF l1] by (simp add: eq)
  show "stderr sf = stderr s0 @ disqualified_log (concat res)"
    using instances_loop_stderr [OF l1] by (simp add: eq)
qed

lemma script_reserved:
  assumes "script rn res rsv s0 = Inr sf"
  shows "dict_get (reserved_instances sf) k 0 =
           sum_list (map count_of (filter (reserves rn k) rsv))"
    and "set (dict_keys (reserved_instances sf)) = {k. \<exists>ri \<in> set rsv. reserves rn k ri}"
    and "distinct (dict_keys (reserved_instances sf))"
    and "qty_reserved_instances sf = sum_list (map count_of rsv)"
proof -
  from assms obtain s1 s2 where
    l2: "reserved_loop rn rsv (s1\<lparr>reserved_instances := []\<rparr>) = Inr s2"
    and sf: "sf = summary (report_used (report_unreserved (report_unused (compute_diff s2))))"
    by (rule script_Inr)
  have eq: "reserved_instances sf = reserved_instances s2"
    "qty_reserved_instances sf = sum_list (dict_values (reserved_instances s2))"
    by (simp_all add: sf reports_fields)
  show "dict_get (reserved_instances sf) k 0 =
           sum_list (map count_of (filter (reserves rn k) rsv))"
    using reserved_loop_get [OF l2, of k] by (simp add: eq)
  show "set (dict_keys (reserved_instances sf)) = {k. \<exists>ri \<in> set rsv. reserves rn k ri}"
    using reserved_loop_keys [OF l2] by (simp add: eq)
  show "distinct (dict_keys (reserved_instances sf))"
    using reserved_loop_distinct [OF l2] by (simp add: eq)
  show "qty_reserved_instances sf = sum_list (map count_of rsv)"
    using reserved_loop_sum [OF l2] by (simp add: eq)
qed

lemma script_diff:
  assumes "script rn res rsv s0 = Inr sf"
  shows "map_of (instance_diff sf) k =
     (if k \<in> set (dict_keys (reserved_instances sf))
      then Some (dict_get (reserved_instances sf) k 0 - dict_get (running_instances sf) k 0)
      else if k \<in> set (dict_keys (running_instances sf))
      then Some (- dict_get (running_instances sf) k 0)
      else None)"
    and "distinct (dict_keys (instance_diff sf))"
    and "set (dict_keys (instance_diff sf)) =
           set (dict_keys (reserved_instances sf)) \<union> set (dict_keys (running_instances sf))"
proof -
  from assms obtain s2 where
    sf: "sf = summary (report_used (report_unreserved (report_unused (compute_diff s2))))"
    by (rule script_Inr)
  have eq: "reserved_instances sf = reserved_instances s2"
    "running_instances sf = running_instances s2"
    "instance_diff sf = instance_diff (compute_diff s2)"
    by (simp_all add: sf reports_fields)
  show "map_of (instance_diff sf) k =
     (if k \<in> set (dict_keys (reserved_instances sf))
      then Some (dict_get (reserved_instances sf) k 0 - dict_get (running_instances sf) k 0)
      else if k \<in> set (dict_keys (running_instances sf))
      then Some (- dict_get (running_instances sf) k 0)
      else None)"
    unfolding eq by (rule compute_diff_map_of)
  show "distinct (dict_keys (instance_diff sf))"
    unfolding eq by (rule compute_diff_distinct)
  show "set (dict_keys (instance_diff sf)) =
           set (dict_keys (reserved_instances sf)) \<union> set (dict_keys (running_instances sf))"
    unfolding eq by (rule compute_diff_keys)
qed

lemma script_buckets:
  assumes "script rn res rsv s0 = Inr sf"
  shows "unused_reservations sf = filter (\<lambda>(key, value). value > 0) (instance_diff sf)"
    and "unreserved_instances sf =
           map (\<lambda>(key, value). (key, - value))
             (filter (\<lambda>(key, value). value < 0) (instance_diff sf))"
    and "used_reservations sf = filter (\<lambda>(key, value). value = 0) (instance_diff sf)"
    and "qty_running_instances sf = sum_list (dict_values (running_instances sf))"
    and "qty_reserved_instances sf = sum_list (dict_values (reserved_instances sf))"
proof -
  from assms obtain s2 where
    sf: "sf = summary (report_used (report_unreserved (report_unused (compute_diff s2))))"
    by (rule script_Inr)
  note d = script_diff(2) [OF assms]
  show "unused_reservations sf = filter (\<lambda>(key, value). value > 0) (instance_diff sf)"
    using reports_fields(5) [of s2] bucket_filter [OF d] by (simp add: sf)
  show "unreserved_instances sf =
           map (\<lambda>(key, value). (key, - value))
             (filter (\<lambda>(key, value). value < 0) (instance_diff sf))"
    using reports_fields(6) [of s2] bucket_negate [OF d] by (simp add: sf)
  show "used_reservations sf = filter (\<lambda>(key, value). value = 0) (instance_diff sf)"
    using reports_fields(7) [of s2] bucket_filter [OF d] by (simp add: sf)
  show "qty_running_instances sf = sum_list (dict_values (running_instances sf))"
    using reports_fields(8) [of s2] by (simp add: sf)
  show "qty_reserved_instances sf = sum_list (dict_values (reserved_instances sf))"
    using reports_fields(9) [of s2] by (simp add: sf)
qed

subsection \<open>The sample run\<close>

lemma example_run:
  "script ''ap-south-1'' example_reservations example_reserved blank_state = Inr example_final"
  by code_simp

subsection \<open>Values and keys of the buckets\<close>

lemma map_of_filter_value:
  "distinct (dict_keys d) \<Longrightarrow>
   map_of (filter (\<lambda>(key, value). P value) d) k =
     (case map_of d k of None \<Rightarrow> None | Some v \<Rightarrow> if P v then Some v else None)"
proof (induction d)
  case Nil
  then show ?case by simp
next
  case (Cons x d)
  obtain a b where x: "x = (a, b)" by (cases x)
  from Cons.prems have "a \<notin> fst ` set d" by (simp add: x dict_keys_def)
  then have "a \<notin> fst ` set (filter (\<lambda>(key, value). P value) d)" by auto
  then have "map_of (filter (\<lambda>(key, value). P value) d) a = None"
    by (simp add: map_of_eq_None_iff)
  with Cons show ?case by (auto simp: x dict_keys_def)
qed

lemma keys_filter_value:
  assumes "distinct (dict_keys d)"
  shows "set (dict_keys (filter (\<lambda>(key, value). P value) d)) =
         {k. \<exists>v. map_of d k = Some v \<and> P v}"
proof -
  have "\<And>k. k \<in> set (dict_keys (filter (\<lambda>(key, value). P value) d)) \<longleftrightarrow>
             map_of (filter (\<lambda>(key, value). P value) d) k \<noteq> None"
    by (simp add: dict_keys_def map_of_eq_None_iff)
  then show ?thesis
    by (auto simp: map_of_filter_value [OF assms] split: option.splits if_splits)
qed

lemma dict_keys_negate:
  fixes d :: "('k \<times> int) list"
  shows "dict_keys (map (\<lambda>(key, value). (key, - value)) d) = dict_keys d"
  by (induction d) (auto simp: dict_keys_def)

lemma map_of_negate:
  fixes d :: "('k \<times> int) list"
  shows "map_of (map (\<lambda>(key, value). (key, - value)) d) k = map_option uminus (map_of d k)"
  by (induction d) auto

lemma sum_values_keys:
  fixes d :: "('k \<times> int) list"
  assumes "distinct (dict_keys d)"
  shows "sum_list (dict_values d) = (\<Sum>k \<in> set (dict_keys d). dict_get d k 0)"
proof -
  have "\<And>p. p \<in> set d \<Longrightarrow> snd p = dict_get d (fst p) 0"
    using assms by (auto simp: dict_get_def dict_keys_def)
  then have m: "map snd d = map ((\<lambda>k. dict_get d k 0) \<circ> fst) d"
    by (intro map_cong) auto
  have "sum_list (dict_values d) = sum_list (map ((\<lambda>k. dict_get d k 0) \<circ> fst) d)"
    unfolding dict_values_def by (subst m) (rule refl)
  then have "sum_list (dict_values d) = sum_list (map (\<lambda>k. dict_get d k 0) (dict_keys d))"
    by (simp only: dict_keys_def map_map)
  also have "\<dots> = (\<Sum>k \<in> set (dict_keys d). dict_get d k 0)"
    using assms by (rule sum_list_distinct_conv_sum_set)
  finally show ?thesis .
qed

lemma sum_values_split:
  fixes d :: "('k \<times> int) list"
  shows "sum_list (dict_values (filter (\<lambda>(key, value). value > 0) d))
         - sum_list (dict_values (map (\<lambda>(key, value). (key, - value))
                                    (filter (\<lambda>(key, value). value < 0) d)))
         = sum_list (dict_values d)"
  by (induction d) (auto simp: dict_values_def)

lemma instances_loop_same_keys:
  "instances_loop insts s = Inr s' \<Longrightarrow>
   dict_keys (running_instances s) = dict_keys (instance_mapping s) \<Longrightarrow>
   dict_keys (running_instances s') = dict_keys (instance_mapping s')"
proof (induction insts arbitrary: s)
  case Nil
  then show ?case by simp
next
  case (Cons inst insts)
  then obtain s1 where v: "visit_instance inst s = Inr s1" and r: "instances_loop insts s1 = Inr s'"
    by (auto split: sum.splits)
  have "dict_keys (running_instances s1) = dict_keys (instance_mapping s1)"
  proof (cases "is_spot inst")
    case True
    with visit_instance_spot [OF True v] Cons.prems(2) show ?thesis by auto
  next
    case False
    with visit_instance_counted [OF False v] Cons.prems(2) show ?thesis
      by (auto simp: dd_add_def dd_append_def dict_keys_def update_keys)
  qed
  with Cons.IH [OF r] show ?case .
qed

subsection \<open>Differences and buckets\<close>

text \<open>
  Claim C1. Whenever the script runs to its end, every key of \<open>running_instances\<close> or of
  \<open>reserved_instances\<close> has the entry
  \<open>instance_diff[key] = reserved_instances[key] - running_instances[key]\<close>, a missing count
  read as 0: a key that only runs has the negated running count, a key that is only
  reserved has the reserved count.
\<close>

theorem diff_is_reserved_minus_running:
  assumes "script region_name reservations reserved s0 = Inr sf"
  shows "\<forall>key \<in> set (dict_keys (running_instances sf)) \<union> set (dict_keys (reserved_instances sf)).
           map_of (instance_diff sf) key =
             Some (dict_get (reserved_instances sf) key 0 - dict_get (running_instances sf) key 0)
           \<and> (key \<notin> set (dict_keys (reserved_instances sf)) \<longrightarrow>
                map_of (instance_diff sf) key = Some (- dict_get (running_instances sf) key 0))
           \<and> (key \<notin> set (dict_keys (running_instances sf)) \<longrightarrow>
                map_of (instance_diff sf) key = Some (dict_get (reserved_instances sf) key 0))"
proof
  fix key
  assume k: "key \<in> set (dict_keys (running_instances sf)) \<union> set (dict_keys (reserved_instances sf))"
  note d = script_diff(1) [OF assms, of key]
  show "map_of (instance_diff sf) key =
          Some (dict_get (reserved_instances sf) key 0 - dict_get (running_instances sf) key 0)
        \<and> (key \<notin> set (dict_keys (reserved_instances sf)) \<longrightarrow>
             map_of (instance_diff sf) key = Some (- dict_get (running_instances sf) key 0))
        \<and> (key \<notin> set (dict_keys (running_instances sf)) \<longrightarrow>
             map_of (instance_diff sf) key = Some (dict_get (reserved_instances sf) key 0))"
  proof (cases "key \<in> set (dict_keys (reserved_instances sf))")
    case True
    then show ?thesis by (simp add: d dict_get_absent)
  next
    case False
    with k have "key \<in> set (dict_keys (running_instances sf))" by simp
    with False show ?thesis by (simp add: d dict_get_absent)
  qed
qed

theorem diff_is_reserved_minus_running_witness:
  "script ''ap-south-1'' example_reservations example_reserved blank_state = Inr example_final
   \<and> map_of (instance_diff example_final) (''m5.large'', ''eu-west-1'') = Some (2 - 3)
   \<and> map_of (instance_diff example_final) (''t3.micro'', ''ap-south-1'') = Some 5"
  using diff_is_reserved_minus_running [OF example_run] example_run
  by (simp add: example_final_def)

text \<open>
  Claim C2. The keys of the three buckets \<open>unused_reservations\<close>,
  \<open>unreserved_instances\<close> and \<open>used_reservations\<close> together are the keys of
  \<open>running_instances\<close> and \<open>reserved_instances\<close>; no key occurs twice in or across the
  buckets; a key whose difference is \<open>v\<close> is in the first bucket with \<open>v\<close> when
  \<open>v > 0\<close>, in the second with \<open>\<bar>v\<bar>\<close> when \<open>v < 0\<close>, in the third with 0 when
  \<open>v = 0\<close>, and in no other.
\<close>

theorem buckets_partition_keys:
  assumes "script region_name reservations reserved s0 = Inr sf"
  shows "set (dict_keys (unused_reservations sf)) \<union> set (dict_keys (unreserved_instances sf))
           \<union> set (dict_keys (used_reservations sf))
         = set (dict_keys (running_instances sf)) \<union> set (dict_keys (reserved_instances sf))
       \<and> distinct (dict_keys (unused_reservations sf) @ dict_keys (unreserved_instances sf)
                     @ dict_keys (used_reservations sf))
       \<and> (\<forall>key v. map_of (instance_diff sf) key = Some v \<longrightarrow>
             map_of (unused_reservations sf) key = (if 0 < v then Some v else None)
           \<and> map_of (unreserved_instances sf) key = (if v < 0 then Some \<bar>v\<bar> else None)
           \<and> map_of (used_reservations sf) key = (if v = 0 then Some 0 else None))"
proof -
  let ?D = "instance_diff sf"
  note dd = script_diff(2) [OF assms]
  note b = script_buckets(1-3) [OF assms]
  have ku: "set (dict_keys (unused_reservations sf)) = {k. \<exists>v. map_of ?D k = Some v \<and> 0 < v}"
    by (simp only: b keys_filter_value [OF dd])
  have kn: "set (dict_keys (unreserved_instances sf)) = {k. \<exists>v. map_of ?D k = Some v \<and> v < 0}"
    by (simp only: b dict_keys_negate keys_filter_value [OF dd])
  have kz: "set (dict_keys (used_reservations sf)) = {k. \<exists>v. map_of ?D k = Some v \<and> v = 0}"
    by (simp only: b keys_filter_value [OF dd])
  have "\<And>k. k \<in> set (dict_keys ?D) \<longleftrightarrow> map_of ?D k \<noteq> None"
    by (simp add: dict_keys_def map_of_eq_None_iff)
  then have kd: "set (dict_keys ?D) = {k. \<exists>v. map_of ?D k = Some v}"
    by auto
  have "set (dict_keys (unused_reservations sf)) \<union> set (dict_keys (unreserved_instances sf))
           \<union> set (dict_keys (used_reservations sf)) = set (dict_keys ?D)"
    unfolding ku kn kz kd by auto
  then have 1: "set (dict_keys (unused_reservations sf)) \<union> set (dict_keys (unreserved_instances sf))
           \<union> set (dict_keys (used_reservations sf))
         = set (dict_keys (running_instances sf)) \<union> set (dict_keys (reserved_instances sf))"
    using script_diff(3) [OF assms] by auto
  have du: "distinct (dict_keys (unused_reservations sf))"
    using distinct_keys_filter [OF dd] by (simp add: b dict_keys_def)
  have dn: "distinct (dict_keys (unreserved_instances sf))"
    using distinct_keys_filter [OF dd, of "\<lambda>(key, value). value < 0"]
    by (simp only: b dict_keys_negate) (simp add: dict_keys_def)
  have dz: "distinct (dict_keys (used_reservations sf))"
    using distinct_keys_filter [OF dd] by (simp add: b dict_keys_def)
  have 2: "distinct (dict_keys (unused_reservations sf) @ dict_keys (unreserved_instances sf)
                     @ dict_keys (used_reservations sf))"
    using du dn dz unfolding distinct_append ku kn kz set_append by auto
  have 3: "\<forall>key v. map_of ?D key = Some v \<longrightarrow>
             map_of (unused_reservations sf) key = (if 0 < v then Some v else None)
           \<and> map_of (unreserved_instances sf) key = (if v < 0 then Some \<bar>v\<bar> else None)
           \<and> map_of (used_reservations sf) key = (if v = 0 then Some 0 else None)"
    by (simp add: b map_of_negate map_of_filter_value [OF dd])
  from 1 2 3 show ?thesis by blast
qed

theorem buckets_partition_keys_witness:
  "script ''ap-south-1'' example_reservations example_reserved blank_state = Inr example_final
   \<and> map_of (instance_diff example_final) (''m5.large'', ''eu-west-1'') = Some (- 1)
   \<and> map_of (unreserved_instances example_final) (''m5.large'', ''eu-west-1'') = Some 1
   \<and> map_of (unused_reservations example_final) (''m5.large'', ''eu-west-1'') = None
   \<and> map_of (used_reservations example_final) (''m5.large'', ''eu-west-1'') = None"
  using buckets_partition_keys [OF example_run] example_run
  by (simp add: example_final_def)

subsection \<open>Counts, instance lists and totals\<close>

text \<open>
  Claim C9. On every successful run, for every key, \<open>running_instances[key]\<close> (0 when the
  key is absent) is the length of \<open>instance_mapping[key]\<close> (empty when absent), that list
  is the \<open>InstanceId\<close>s, in input order, of the records without a
  \<open>SpotInstanceRequestId\<close> whose type and zone-stripped region are the key, and the two
  dictionaries hold the same keys in the same order.
\<close>

theorem running_count_matches_instance_mapping:
  assumes "script region_name reservations reserved s0 = Inr sf"
  shows "dict_get (running_instances sf) key 0 = int (length (dict_get (instance_mapping sf) key []))
       \<and> map Some (dict_get (instance_mapping sf) key []) =
           map InstanceId (filter (counts_for key) (concat reservations))
       \<and> dict_keys (running_instances sf) = dict_keys (instance_mapping sf)"
proof -
  note r = script_running(1,2) [OF assms, of key]
  have "length (map Some (dict_get (instance_mapping sf) key [])) =
        length (map InstanceId (filter (counts_for key) (concat reservations)))"
    by (simp only: r)
  then have "length (dict_get (instance_mapping sf) key []) =
             length (filter (counts_for key) (concat reservations))"
    by (simp only: length_map)
  then have 1: "dict_get (running_instances sf) key 0 =
                int (length (dict_get (instance_mapping sf) key []))"
    by (simp only: r(1))
  from assms obtain s1 s2 where
    l1: "instances_loop (concat reservations)
           (s0\<lparr>running_instances := [], instance_mapping := []\<rparr>) = Inr s1"
    and l2: "reserved_loop region_name reserved (s1\<lparr>reserved_instances := []\<rparr>) = Inr s2"
    and sf: "sf = summary (report_used (report_unreserved (report_unused (compute_diff s2))))"
    by (rule script_Inr)
  from reserved_loop_frame [OF l2] obtain d where "s2 = s1\<lparr>reserved_instances := d\<rparr>"
    by auto
  then have eq: "running_instances sf = running_instances s1"
    "instance_mapping sf = instance_mapping s1"
    by (simp_all add: sf reports_fields)
  have 2: "dict_keys (running_instances sf) = dict_keys (instance_mapping sf)"
    using instances_loop_same_keys [OF l1] by (simp add: eq)
  from 1 r(2) 2 show ?thesis by blast
qed

theorem running_count_matches_instance_mapping_witness:
  "script ''ap-south-1'' example_reservations example_reserved blank_state = Inr example_final
   \<and> dict_get (running_instances example_final) (''m5.large'', ''eu-west-1'') 0 = 3
   \<and> dict_get (instance_mapping example_final) (''m5.large'', ''eu-west-1'') [] =
        [''i-1'', ''i-2'', ''i-4'']
   \<and> map InstanceId (filter (counts_for (''m5.large'', ''eu-west-1''))
                         (concat example_reservations)) =
        [Some ''i-1'', Some ''i-2'', Some ''i-4'']"
  using running_count_matches_instance_mapping
          [OF example_run, of "(''m5.large'', ''eu-west-1'')"] example_run
  by (simp add: example_final_def dict_get_def)

text \<open>
  Claim C7. On every successful run, \<open>qty_running_instances\<close> is the sum of the values of
  \<open>running_instances\<close> over its keys, which is the number of input records without a
  \<open>SpotInstanceRequestId\<close>, and \<open>qty_reserved_instances\<close> is the sum of the values of
  \<open>reserved_instances\<close> over its keys, which is the sum of the \<open>InstanceCount\<close>s.
\<close>

theorem summary_totals:
  assumes "script region_name reservations reserved s0 = Inr sf"
  shows "qty_running_instances sf =
           (\<Sum>key \<in> set (dict_keys (running_instances sf)). dict_get (running_instances sf) key 0)
       \<and> qty_running_instances sf =
           int (length (filter (\<lambda>inst. \<not> is_spot inst) (concat reservations)))
       \<and> qty_reserved_instances sf =
           (\<Sum>key \<in> set (dict_keys (reserved_instances sf)). dict_get (reserved_instances sf) key 0)
       \<and> qty_reserved_instances sf = sum_list (map count_of reserved)"
  using script_buckets(4,5) [OF assms] script_running(5,7) [OF assms]
    script_reserved(3,4) [OF assms]
  by (simp add: sum_values_keys)

theorem summary_totals_witness:
  "script ''ap-south-1'' example_reservations example_reserved blank_state = Inr example_final
   \<and> qty_running_instances example_final = 5
   \<and> int (length (filter (\<lambda>inst. \<not> is_spot inst) (concat example_reservations))) = 5
   \<and> qty_reserved_instances example_final = 9
   \<and> sum_list (map count_of example_reserved) = 9"
  using summary_totals [OF example_run] example_run
  by (simp add: example_final_def)

text \<open>
  Claim C10. On every successful run, the values of \<open>unused_reservations\<close> summed, minus
  the values of \<open>unreserved_instances\<close> summed, is
  \<open>qty_reserved_instances - qty_running_instances\<close>.
\<close>

theorem surplus_minus_deficit:
  assumes "script region_name reservations reserved s0 = Inr sf"
  shows "sum_list (dict_values (unused_reservations sf))
         - sum_list (dict_values (unreserved_instances sf))
         = qty_reserved_instances sf - qty_running_instances sf"
proof -
  let ?D = "instance_diff sf"
  let ?R = "reserved_instances sf"
  let ?N = "running_instances sf"
  let ?K = "set (dict_keys ?R) \<union> set (dict_keys ?N)"
  note b = script_buckets [OF assms]
  have "sum_list (dict_values (unused_reservations sf))
         - sum_list (dict_values (unreserved_instances sf)) = sum_list (dict_values ?D)"
    by (simp only: b(1,2) sum_values_split)
  also have "\<dots> = (\<Sum>k \<in> set (dict_keys ?D). dict_get ?D k 0)"
    using script_diff(2) [OF assms] by (rule sum_values_keys)
  also have "\<dots> = (\<Sum>k \<in> ?K. dict_get ?D k 0)"
    by (simp only: script_diff(3) [OF assms])
  also have "\<dots> = (\<Sum>k \<in> ?K. dict_get ?R k 0 - dict_get ?N k 0)"
  proof (rule sum.cong)
    fix k assume "k \<in> ?K"
    then show "dict_get ?D k 0 = dict_get ?R k 0 - dict_get ?N k 0"
      using script_diff(1) [OF assms, of k]
      by (auto simp: dict_get_def [of ?D] dict_get_absent)
  qed simp
  also have "\<dots> = (\<Sum>k \<in> ?K. dict_get ?R k 0) - (\<Sum>k \<in> ?K. dict_get ?N k 0)"
    by (rule sum_subtractf)
  also have "(\<Sum>k \<in> ?K. dict_get ?R k 0) = (\<Sum>k \<in> set (dict_keys ?R). dict_get ?R k 0)"
    by (rule sum.mono_neutral_right) (auto simp: dict_get_absent)
  also have "(\<Sum>k \<in> ?K. dict_get ?N k 0) = (\<Sum>k \<in> set (dict_keys ?N). dict_get ?N k 0)"
    by (rule sum.mono_neutral_right) (auto simp: dict_get_absent)
  also have "(\<Sum>k \<in> set (dict_keys ?R). dict_get ?R k 0) = qty_reserved_instances sf"
    using sum_values_keys [OF script_reserved(3) [OF assms]] by (simp add: b(5))
  also have "(\<Sum>k \<in> set (dict_keys ?N). dict_get ?N k 0) = qty_running_instances sf"
    using sum_values_keys [OF script_running(5) [OF assms]] by (simp add: b(4))
  finally show ?thesis .
qed

theorem surplus_minus_deficit_witness:
  "script ''ap-south-1'' example_reservations example_reserved blank_state = Inr example_final
   \<and> sum_list (dict_values (unused_reservations example_final)) = 5
   \<and> sum_list (dict_values (unreserved_instances example_final)) = 1
   \<and> qty_reserved_instances example_final - qty_running_instances example_final = 4"
  using surplus_minus_deficit [OF example_run] example_run
  by (simp add: example_final_def dict_values_def)

subsection \<open>Exactly used reservations\<close>

lemma sum_list_ge_one:
  fixes f :: "'a \<Rightarrow> int"
  shows "\<forall>x \<in> set xs. 1 \<le> f x \<Longrightarrow> xs \<noteq> [] \<Longrightarrow> 1 \<le> sum_list (map f xs)"
proof (induction xs)
  case Nil
  then show ?case by simp
next
  case (Cons x xs)
  have "0 \<le> sum_list (map f xs)"
    using Cons.prems(1) by (intro sum_list_nonneg) auto
  with Cons.prems(1) show ?case by simp
qed

lemma report_used_lines:
  assumes "(key, value) \<in> set (used_reservations (report_used s))"
  shows "''Reserved Instances ('' @ fst key @ '' '' @ snd key @ ''): ''
           @ join '', '' (instance_list s key) \<in> set (stdout (report_used s))"
proof -
  let ?u = "dict_of_items (filter (\<lambda>(key, value). value = 0) (instance_diff s))"
  let ?s1 = "s\<lparr>used_reservations := ?u\<rparr>"
  let ?line = "\<lambda>(key, value). ''Reserved Instances ('' @ fst key @ '' '' @ snd key
                                          @ ''): '' @ join '', '' (instance_list ?s1 key)"
  obtain out where f: "report_used s = s\<lparr>used_reservations := ?u, stdout := out\<rparr>"
    using report_used_frame [of s] by blast
  from assms have m: "(key, value) \<in> set ?u" by (simp add: f)
  then have ne: "?u \<noteq> []" by auto
  have "stdout (report_used s) =
          stdout s @ [CHR 0x0A # ''Used Reservations:''] @ map ?line ?u"
    using ne by (simp add: report_used_def Let_def)
  moreover have "?line (key, value) \<in> set (map ?line ?u)"
    using m unfolding set_map by (rule imageI)
  moreover have "instance_list ?s1 key = instance_list s key"
    by (simp add: instance_list_def)
  ultimately show ?thesis by simp
qed

lemma summary_keeps:
  "set (stdout s) \<subseteq> set (stdout (summary s))"
  "instance_mapping (summary s) = instance_mapping s"
  "used_reservations (summary s) = used_reservations s"
  by (auto simp: summary_def Let_def)

lemma reports_keep_mapping:
  "instance_mapping (report_unused s) = instance_mapping s"
  "instance_mapping (report_unreserved s) = instance_mapping s"
  "instance_mapping (report_used s) = instance_mapping s"
  using report_unused_frame [of s] report_unreserved_frame [of s] report_used_frame [of s]
  by auto

text \<open>
  Claim C5. On a successful run in which every reservation record has an
  \<open>InstanceCount\<close> of at least 1, a key whose difference is 0 is in
  \<open>used_reservations\<close>, its line is printed with the instance list of line 85, that
  list is the \<open>InstanceId\<close>s, in input order, of the records without a
  \<open>SpotInstanceRequestId\<close> matching the key, and its length is
  \<open>running_instances[key]\<close>.
\<close>

theorem exactly_used_lists_instances:
  assumes run: "script region_name reservations reserved s0 = Inr sf"
    and counts: "\<forall>ri \<in> set reserved. 1 \<le> count_of ri"
    and zero: "map_of (instance_diff sf) key = Some 0"
  shows "map_of (used_reservations sf) key = Some 0
       \<and> ''Reserved Instances ('' @ fst key @ '' '' @ snd key @ ''): ''
            @ join '', '' (instance_list sf key) \<in> set (stdout sf)
       \<and> map Some (instance_list sf key) =
           map InstanceId (filter (counts_for key) (concat reservations))
       \<and> int (length (instance_list sf key)) = dict_get (running_instances sf) key 0"
proof -
  let ?R = "reserved_instances sf"
  let ?N = "running_instances sf"
  let ?M = "instance_mapping sf"
  note d = script_diff(1) [OF run, of key]
  have inN: "key \<in> set (dict_keys ?N)"
  proof (cases "key \<in> set (dict_keys ?R)")
    case True
    with d zero have eq: "dict_get ?N key 0 = dict_get ?R key 0" by simp
    from True obtain ri where "ri \<in> set reserved" "reserves region_name key ri"
      unfolding script_reserved(2) [OF run] by blast
    then have "filter (reserves region_name key) reserved \<noteq> []"
      by (auto simp: filter_empty_conv)
    moreover have "\<forall>ri \<in> set (filter (reserves region_name key) reserved). 1 \<le> count_of ri"
      using counts by simp
    ultimately have "1 \<le> dict_get ?R key 0"
      unfolding script_reserved(1) [OF run] by (intro sum_list_ge_one)
    with eq have "dict_get ?N key 0 \<noteq> 0" by simp
    then show ?thesis using dict_get_absent [of key ?N 0] by blast
  next
    case False
    with d zero show ?thesis by (simp split: if_splits)
  qed
  then have inM: "key \<in> set (dict_keys ?M)"
    by (simp only: script_running(3,4) [OF run])
  have il: "instance_list sf key = dict_get ?M key []"
    using map_of_present [OF inM, of "[]"]
    by (cases "map_of ?M key") (simp_all add: instance_list_def dict_get_def)
  have 1: "map_of (used_reservations sf) key = Some 0"
    using zero
    by (simp add: script_buckets(3) [OF run] map_of_filter_value [OF script_diff(2) [OF run]])
  from run obtain s2 where
    sf: "sf = summary (report_used (report_unreserved (report_unused (compute_diff s2))))"
    by (rule script_Inr)
  define c where "c = report_unreserved (report_unused (compute_diff s2))"
  have sfc: "sf = summary (report_used c)" by (simp add: sf c_def)
  from 1 have "(key, 0) \<in> set (used_reservations sf)" by (rule map_of_SomeD)
  then have "(key, 0) \<in> set (used_reservations (report_used c))"
    by (simp add: sfc summary_keeps)
  then have "''Reserved Instances ('' @ fst key @ '' '' @ snd key @ ''): ''
           @ join '', '' (instance_list c key) \<in> set (stdout (report_used c))"
    by (rule report_used_lines)
  moreover have "instance_list c key = instance_list sf key"
    by (simp add: instance_list_def sfc summary_keeps reports_keep_mapping)
  ultimately have 2: "''Reserved Instances ('' @ fst key @ '' '' @ snd key @ ''): ''
            @ join '', '' (instance_list sf key) \<in> set (stdout sf)"
    using summary_keeps(1) [of "report_used c"] by (auto simp: sfc)
  note r = script_running(1,2) [OF run, of key]
  have 3: "map Some (instance_list sf key) =
           map InstanceId (filter (counts_for key) (concat reservations))"
    by (simp only: il r)
  then have "length (map Some (instance_list sf key)) =
             length (map InstanceId (filter (counts_for key) (concat reservations)))"
    by (rule arg_cong)
  then have "length (instance_list sf key) =
             length (filter (counts_for key) (concat reservations))"
    by (simp only: length_map)
  then have 4: "int (length (instance_list sf key)) = dict_get ?N key 0"
    by (simp only: r(1))
  from 1 2 3 4 show ?thesis by blast
qed

theorem exactly_used_lists_instances_witness:
  "script ''ap-south-1'' example_reservations example_reserved blank_state = Inr example_final
   \<and> map_of (instance_diff example_final) (''c5.xlarge'', ''us-east-1'') = Some 0
   \<and> map_of (used_reservations example_final) (''c5.xlarge'', ''us-east-1'') = Some 0
   \<and> ''Reserved Instances (c5.xlarge us-east-1): i-5, i-6'' \<in> set (stdout example_final)
   \<and> instance_list example_final (''c5.xlarge'', ''us-east-1'') = [''i-5'', ''i-6'']
   \<and> dict_get (running_instances example_final) (''c5.xlarge'', ''us-east-1'') 0 = 2"
proof -
  have c: "\<forall>ri \<in> set example_reserved. 1 \<le> count_of ri"
    by (simp add: example_reserved_def count_of_def)
  have z: "map_of (instance_diff example_final) (''c5.xlarge'', ''us-east-1'') = Some 0"
    by (simp add: example_final_def)
  show ?thesis
    using exactly_used_lists_instances [OF example_run c z] example_run
    by (simp add: example_final_def instance_list_def dict_get_def)
qed

subsection \<open>The region of a reservation\<close>

text \<open>
  Claim C3. The region the script gives a reservation record is the specification's:
  the availability zone without its last character when the record has one, else the
  session's region for scope \<open>"Region"\<close>, else \<open>"Unknown"\<close>. A zone field that holds the
  empty string is no zone, and line 47 treats it as an absent one. A reservation of
  scope \<open>"Region"\<close> without a zone gets the session's region, not \<open>"Unknown"\<close>, and each
  record is counted under its type and this region.
\<close>

theorem reserved_region_follows_spec:
  "(RI_AvailabilityZone ri \<noteq> Some [] \<longrightarrow>
      reserved_region region_name ri = spec_region region_name ri)
   \<and> (RI_AvailabilityZone ri = Some [] \<longrightarrow>
      reserved_region region_name ri = spec_region region_name (ri\<lparr>RI_AvailabilityZone := None\<rparr>))
   \<and> ((RI_AvailabilityZone ri = None \<or> RI_AvailabilityZone ri = Some [])
        \<and> Scope ri = Some ''Region'' \<longrightarrow>
      reserved_region region_name ri = region_name
      \<and> (region_name \<noteq> ''Unknown'' \<longrightarrow> reserved_region region_name ri \<noteq> ''Unknown''))
   \<and> (\<forall>s s'. visit_reserved region_name ri s = Inr s' \<longrightarrow>
        (\<exists>t n. RI_InstanceType ri = Some t \<and> InstanceCount ri = Some n
           \<and> reserved_instances s' =
               dd_add (t, reserved_region region_name ri) n (reserved_instances s)))"
proof -
  have "\<forall>s s'. visit_reserved region_name ri s = Inr s' \<longrightarrow>
        (\<exists>t n. RI_InstanceType ri = Some t \<and> InstanceCount ri = Some n
           \<and> reserved_instances s' =
               dd_add (t, reserved_region region_name ri) n (reserved_instances s))"
    using visit_reserved_Inr [of region_name ri] by fastforce
  moreover have "RI_AvailabilityZone ri \<noteq> Some [] \<longrightarrow>
      reserved_region region_name ri = spec_region region_name ri"
    by (auto simp: reserved_region_def spec_region_def split: option.splits)
  moreover have "RI_AvailabilityZone ri = Some [] \<longrightarrow>
      reserved_region region_name ri = spec_region region_name (ri\<lparr>RI_AvailabilityZone := None\<rparr>)"
    by (simp add: reserved_region_def spec_region_def)
  moreover have "(RI_AvailabilityZone ri = None \<or> RI_AvailabilityZone ri = Some [])
        \<and> Scope ri = Some ''Region'' \<longrightarrow>
      reserved_region region_name ri = region_name
      \<and> (region_name \<noteq> ''Unknown'' \<longrightarrow> reserved_region region_name ri \<noteq> ''Unknown'')"
    by (auto simp: reserved_region_def)
  ultimately show ?thesis by blast
qed

theorem reserved_region_follows_spec_witness:
  "reserved_region ''ap-south-1'' (example_reserved ! 0) = ''eu-west-1''
   \<and> reserved_region ''ap-south-1'' (example_reserved ! 2) = ''ap-south-1''
   \<and> reserved_region ''ap-south-1'' (example_reserved ! 2) \<noteq> ''Unknown''
   \<and> reserved_region ''ap-south-1'' ((example_reserved ! 2)\<lparr>RI_AvailabilityZone := Some []\<rparr>)
        = ''ap-south-1''
   \<and> visit_reserved ''ap-south-1'' (example_reserved ! 2) blank_state =
        Inr (blank_state\<lparr>reserved_instances := [((''t3.micro'', ''ap-south-1''), 5)]\<rparr>)
   \<and> reserved_instances (blank_state\<lparr>reserved_instances := [((''t3.micro'', ''ap-south-1''), 5)]\<rparr>)
        = dd_add (''t3.micro'', ''ap-south-1'') 5 (reserved_instances blank_state)"
proof -
  let ?rn = "''ap-south-1''"
  let ?r0 = "example_reserved ! 0"
  let ?r2 = "example_reserved ! 2"
  let ?r2e = "?r2\<lparr>RI_AvailabilityZone := Some []\<rparr>"
  let ?s' = "blank_state\<lparr>reserved_instances := [((''t3.micro'', ''ap-south-1''), 5)]\<rparr>"
  have h0: "RI_AvailabilityZone ?r0 \<noteq> Some []"
    by (simp add: example_reserved_def)
  have h2: "(RI_AvailabilityZone ?r2 = None \<or> RI_AvailabilityZone ?r2 = Some [])
            \<and> Scope ?r2 = Some ''Region''"
    by (simp add: example_reserved_def)
  have h2e: "RI_AvailabilityZone ?r2e = Some []"
    by (simp add: example_reserved_def)
  have n: "?rn \<noteq> ''Unknown''" by simp
  have v: "visit_reserved ?rn ?r2 blank_state = Inr ?s'"
    by (simp add: example_reserved_def visit_reserved_def reserved_region_def blank_state_def
        dd_add_def Let_def)
  have t2: "RI_InstanceType ?r2 = Some ''t3.micro''" "InstanceCount ?r2 = Some 5"
    by (simp_all add: example_reserved_def)
  from reserved_region_follows_spec [of ?r0 ?rn] h0
  have "reserved_region ?rn ?r0 = spec_region ?rn ?r0" by blast
  then have 1: "reserved_region ?rn ?r0 = ''eu-west-1''"
    by (simp add: spec_region_def example_reserved_def)
  from reserved_region_follows_spec [of ?r2 ?rn] h2
  have 2: "reserved_region ?rn ?r2 = ?rn"
    and "?rn \<noteq> ''Unknown'' \<longrightarrow> reserved_region ?rn ?r2 \<noteq> ''Unknown''"
    by blast+
  with n have u: "reserved_region ?rn ?r2 \<noteq> ''Unknown''" by blast
  from reserved_region_follows_spec [of ?r2e ?rn] h2e
  have "reserved_region ?rn ?r2e = spec_region ?rn (?r2e\<lparr>RI_AvailabilityZone := None\<rparr>)"
    by blast
  then have 3: "reserved_region ?rn ?r2e = ?rn"
    by (simp add: spec_region_def example_reserved_def)
  from reserved_region_follows_spec [of ?r2 ?rn] v
  have "\<exists>t n. RI_InstanceType ?r2 = Some t \<and> InstanceCount ?r2 = Some n
           \<and> reserved_instances ?s' =
               dd_add (t, reserved_region ?rn ?r2) n (reserved_instances blank_state)"
    by blast
  then have 4: "reserved_instances ?s' =
                dd_add (''t3.micro'', ''ap-south-1'') 5 (reserved_instances blank_state)"
    unfolding 2 t2 by blast
  from 1 2 u 3 v 4 show ?thesis by blast
qed

subsection \<open>Totality\<close>

lemma visit_instance_total:
  "instance_complete inst \<Longrightarrow> \<exists>s'. visit_instance inst s = Inr s'"
  by (auto simp: instance_complete_def visit_instance_def Let_def split: option.splits)

lemma instances_loop_total:
  "\<forall>inst \<in> set insts. instance_complete inst \<Longrightarrow> \<exists>s'. instances_loop insts s = Inr s'"
proof (induction insts arbitrary: s)
  case Nil
  then show ?case by simp
next
  case (Cons inst insts)
  then obtain s1 where "visit_instance inst s = Inr s1"
    using visit_instance_total [of inst s] by auto
  with Cons show ?case by simp
qed

lemma visit_reserved_total:
  "reserved_complete ri \<Longrightarrow> \<exists>s'. visit_reserved region_name ri s = Inr s'"
  by (auto simp: reserved_complete_def visit_reserved_def Let_def split: option.splits)

lemma reserved_loop_total:
  "\<forall>ri \<in> set rsv. reserved_complete ri \<Longrightarrow> \<exists>s'. reserved_loop region_name rsv s = Inr s'"
proof (induction rsv arbitrary: s)
  case Nil
  then show ?case by simp
next
  case (Cons ri rsv)
  then obtain s1 where "visit_reserved region_name ri s = Inr s1"
    using visit_reserved_total [of ri region_name s] by auto
  with Cons show ?case by simp
qed

lemma reservation_records_loop_present:
  "reservation_records_loop (map (\<lambda>instances. \<lparr>Instances = Some instances\<rparr>) reservations) s
   = reservations_loop reservations s"
  by (induction reservations arbitrary: s) (auto split: sum.splits)

lemma script_on_responses_present:
  "script_on_responses region_name (instances_response reservations) (Some reserved) s0
   = script region_name reservations reserved s0"
  by (simp add: script_on_responses_def script_def instances_response_def
      reservation_records_loop_present split: sum.splits)

lemma script_on_responses_missing_key:
  "script_on_responses region_name None ReservedInstances s0 = Inl KeyError"
  "script_on_responses region_name (Some (\<lparr>Instances = None\<rparr> # rest)) ReservedInstances s0
     = Inl KeyError"
  "script_on_responses region_name (Some []) None s0 = Inl KeyError"
  by (simp_all add: script_on_responses_def)

lemma well_formed_instance_complete: "well_formed_instance inst \<Longrightarrow> instance_complete inst"
  by (auto simp: well_formed_instance_def instance_complete_def split: option.splits)

lemma well_formed_reserved_complete: "well_formed_reserved ri \<Longrightarrow> reserved_complete ri"
  by (auto simp: well_formed_reserved_def reserved_complete_def split: option.splits)

lemma script_total:
  assumes "\<forall>inst \<in> set (concat reservations). instance_complete inst"
    and "\<forall>ri \<in> set reserved. reserved_complete ri"
  shows "\<exists>sf. script region_name reservations reserved s0 = Inr sf"
proof -
  obtain s1 where
    "instances_loop (concat reservations)
       (s0\<lparr>running_instances := [], instance_mapping := []\<rparr>) = Inr s1"
    using instances_loop_total [OF assms(1)] by blast
  moreover obtain s2 where
    "reserved_loop region_name reserved (s1\<lparr>reserved_instances := []\<rparr>) = Inr s2"
    using reserved_loop_total [OF assms(2)] by blast
  ultimately show ?thesis
    by (simp add: script_def reservations_loop_concat)
qed

lemma counts_for_well_formed:
  "well_formed_instance inst \<Longrightarrow> counts_for key inst \<Longrightarrow> fst key \<noteq> [] \<and> snd key \<noteq> []"
  by (cases "Placement_AvailabilityZone inst"; cases "InstanceType inst")
    (auto simp: well_formed_instance_def counts_for_def butlast_conv_take)

lemma reserves_well_formed:
  "well_formed_reserved ri \<Longrightarrow> reserves region_name key ri \<Longrightarrow> fst key \<noteq> [] \<and> 1 \<le> count_of ri"
  by (cases "RI_InstanceType ri"; cases "InstanceCount ri")
    (auto simp: well_formed_reserved_def reserves_def count_of_def)

text \<open>
  Claim C8. On every well-formed input (each record with its identifier, a non-empty
  type and a zone of at least two characters; each reservation with a non-empty type,
  a count of at least 1 and, if any, a zone of at least two characters) the script
  raises nothing, also when run on the responses that hold these lists, and every step
  gives its result: each zone is stripped to a non-empty region, the two aggregate maps
  hold the counts of the input per key, \<open>instance_diff\<close> holds the difference for the keys
  of either map and no other, the three buckets are its positive, negated negative and
  zero entries, and the two totals are the number of non-spot records and the sum of
  the reservation counts.
\<close>

theorem script_cannot_fail:
  assumes wi: "\<forall>inst \<in> set (concat reservations). well_formed_instance inst"
    and wr: "\<forall>ri \<in> set reserved. well_formed_reserved ri"
  shows "\<exists>sf. script_on_responses region_name (instances_response reservations) (Some reserved) s0
                = Inr sf
       \<and> script region_name reservations reserved s0 = Inr sf
       \<and> (\<forall>key. dict_get (running_instances sf) key 0 =
                  int (length (filter (counts_for key) (concat reservations))))
       \<and> (\<forall>key \<in> set (dict_keys (running_instances sf)). fst key \<noteq> [] \<and> snd key \<noteq> [])
       \<and> (\<forall>key. dict_get (reserved_instances sf) key 0 =
                  sum_list (map count_of (filter (reserves region_name key) reserved)))
       \<and> (\<forall>key \<in> set (dict_keys (reserved_instances sf)).
             fst key \<noteq> [] \<and> 1 \<le> dict_get (reserved_instances sf) key 0)
       \<and> (\<forall>key. map_of (instance_diff sf) key =
             (if key \<in> set (dict_keys (reserved_instances sf))
                       \<union> set (dict_keys (running_instances sf))
              then Some (dict_get (reserved_instances sf) key 0
                         - dict_get (running_instances sf) key 0)
              else None))
       \<and> unused_reservations sf = filter (\<lambda>(key, value). value > 0) (instance_diff sf)
       \<and> unreserved_instances sf =
           map (\<lambda>(key, value). (key, - value))
             (filter (\<lambda>(key, value). value < 0) (instance_diff sf))
       \<and> used_reservations sf = filter (\<lambda>(key, value). value = 0) (instance_diff sf)
       \<and> qty_running_instances sf =
           int (length (filter (\<lambda>inst. \<not> is_spot inst) (concat reservations)))
       \<and> qty_reserved_instances sf = sum_list (map count_of reserved)"
proof -
  have ci: "\<forall>inst \<in> set (concat reservations). instance_complete inst"
    using wi well_formed_instance_complete by blast
  have cr: "\<forall>ri \<in> set reserved. reserved_complete ri"
    using wr well_formed_reserved_complete by blast
  from script_total [OF ci cr] obtain sf where
    run: "script region_name reservations reserved s0 = Inr sf" by blast
  have 1: "script_on_responses region_name (instances_response reservations) (Some reserved) s0
           = Inr sf"
    by (simp only: script_on_responses_present run)
  have 3: "\<forall>key. dict_get (running_instances sf) key 0 =
                  int (length (filter (counts_for key) (concat reservations)))"
    using script_running(1) [OF run] by blast
  have 4: "\<forall>key \<in> set (dict_keys (running_instances sf)). fst key \<noteq> [] \<and> snd key \<noteq> []"
    unfolding script_running(3) [OF run] using wi counts_for_well_formed by blast
  have 5: "\<forall>key. dict_get (reserved_instances sf) key 0 =
                  sum_list (map count_of (filter (reserves region_name key) reserved))"
    using script_reserved(1) [OF run] by blast
  have 6: "\<forall>key \<in> set (dict_keys (reserved_instances sf)).
             fst key \<noteq> [] \<and> 1 \<le> dict_get (reserved_instances sf) key 0"
  proof
    fix key
    assume "key \<in> set (dict_keys (reserved_instances sf))"
    then obtain ri where ri: "ri \<in> set reserved" "reserves region_name key ri"
      unfolding script_reserved(2) [OF run] by blast
    then have ne: "filter (reserves region_name key) reserved \<noteq> []"
      by (auto simp: filter_empty_conv)
    have "\<forall>r \<in> set (filter (reserves region_name key) reserved). 1 \<le> count_of r"
      using wr reserves_well_formed [of _ region_name key] by simp
    then have "1 \<le> sum_list (map count_of (filter (reserves region_name key) reserved))"
      using ne by (rule sum_list_ge_one)
    moreover have "fst key \<noteq> []"
      using wr ri reserves_well_formed by blast
    ultimately show "fst key \<noteq> [] \<and> 1 \<le> dict_get (reserved_instances sf) key 0"
      by (simp only: script_reserved(1) [OF run] simp_thms)
  qed
  have 7: "\<forall>key. map_of (instance_diff sf) key =
             (if key \<in> set (dict_keys (reserved_instances sf))
                       \<union> set (dict_keys (running_instances sf))
              then Some (dict_get (reserved_instances sf) key 0
                         - dict_get (running_instances sf) key 0)
              else None)"
    by (simp add: script_diff(1) [OF run] dict_get_absent)
  note b = script_buckets(1-3) [OF run]
  note q1 = script_running(7) [OF run]
  note q2 = script_reserved(4) [OF run]
  from 1 run 3 4 5 6 7 b q1 q2 show ?thesis by blast
qed

theorem script_cannot_fail_witness:
  "script_on_responses ''ap-south-1'' (instances_response example_reservations)
     (Some example_reserved) blank_state = Inr example_final
   \<and> qty_running_instances example_final = 5
   \<and> qty_reserved_instances example_final = 9"
proof -
  have a: "\<forall>inst \<in> set (concat example_reservations). well_formed_instance inst"
    by (simp add: example_reservations_def on_demand_def well_formed_instance_def)
  have b: "\<forall>ri \<in> set example_reserved. well_formed_reserved ri"
    by (simp add: example_reserved_def well_formed_reserved_def)
  from script_cannot_fail [OF a b, of "''ap-south-1''" blank_state] obtain sf where
    r: "script_on_responses ''ap-south-1'' (instances_response example_reservations)
          (Some example_reserved) blank_state = Inr sf"
    and s: "script ''ap-south-1'' example_reservations example_reserved blank_state = Inr sf"
    by (elim exE conjE)
  from s example_run have "sf = example_final" by simp
  with r show ?thesis by (simp add: example_final_def)
qed

subsection \<open>What a run depends on\<close>

lemma variables_eq_iff:
  "variables a = variables b \<longleftrightarrow>
     running_instances a = running_instances b \<and> instance_mapping a = instance_mapping b
     \<and> reserved_instances a = reserved_instances b \<and> instance_diff a = instance_diff b
     \<and> unused_reservations a = unused_reservations b
     \<and> unreserved_instances a = unreserved_instances b
     \<and> used_reservations a = used_reservations b
     \<and> qty_running_instances a = qty_running_instances b
     \<and> qty_reserved_instances a = qty_reserved_instances b"
  by (cases a, cases b) (auto simp: variables_def)

lemma visit_instance_agree:
  assumes "running_instances a = running_instances b" "instance_mapping a = instance_mapping b"
  shows "rel_sum (=) (\<lambda>a' b'. running_instances a' = running_instances b'
                          \<and> instance_mapping a' = instance_mapping b')
           (visit_instance inst a) (visit_instance inst b)"
  using assms by (auto simp: visit_instance_def Let_def split: option.splits)

lemma instances_loop_agree:
  "running_instances a = running_instances b \<Longrightarrow> instance_mapping a = instance_mapping b \<Longrightarrow>
   rel_sum (=) (\<lambda>a' b'. running_instances a' = running_instances b'
                     \<and> instance_mapping a' = instance_mapping b')
     (instances_loop insts a) (instances_loop insts b)"
proof (induction insts arbitrary: a b)
  case Nil
  then show ?case by simp
next
  case (Cons inst insts)
  from visit_instance_agree [OF Cons.prems, of inst] show ?case
    by (cases "visit_instance inst a"; cases "visit_instance inst b") (auto intro: Cons.IH)
qed

lemma visit_reserved_agree:
  assumes "reserved_instances a = reserved_instances b"
  shows "rel_sum (=) (\<lambda>a' b'. reserved_instances a' = reserved_instances b')
           (visit_reserved region_name ri a) (visit_reserved region_name ri b)"
  using assms by (auto simp: visit_reserved_def Let_def split: option.splits)

lemma reserved_loop_agree:
  "reserved_instances a = reserved_instances b \<Longrightarrow>
   rel_sum (=) (\<lambda>a' b'. reserved_instances a' = reserved_instances b')
     (reserved_loop region_name rsv a) (reserved_loop region_name rsv b)"
proof (induction rsv arbitrary: a b)
  case Nil
  then show ?case by simp
next
  case (Cons ri rsv)
  from visit_reserved_agree [OF Cons.prems, of region_name ri] show ?case
    by (cases "visit_reserved region_name ri a"; cases "visit_reserved region_name ri b")
      (auto intro: Cons.IH)
qed

lemma running_only_loop_agree:
  "reserved_instances a = reserved_instances b \<Longrightarrow>
   running_instances a = running_instances b \<Longrightarrow> instance_diff a = instance_diff b \<Longrightarrow>
   instance_diff (running_only_loop ks a) = instance_diff (running_only_loop ks b)"
proof (induction ks arbitrary: a b)
  case Nil
  then show ?case by simp
next
  case (Cons k ks)
  let ?step = "\<lambda>s. if \<not> dict_contains (reserved_instances s) k
                   then s\<lparr>instance_diff :=
                            AList.update k (- dict_get (running_instances s) k 0) (instance_diff s)\<rparr>
                   else s"
  have "reserved_instances (?step a) = reserved_instances (?step b)"
    "running_instances (?step a) = running_instances (?step b)"
    "instance_diff (?step a) = instance_diff (?step b)"
    using Cons.prems by simp_all
  then have "instance_diff (running_only_loop ks (?step a))
           = instance_diff (running_only_loop ks (?step b))"
    by (rule Cons.IH)
  then show ?case by (simp only: running_only_loop.simps)
qed

lemma compute_diff_agree:
  assumes r: "reserved_instances a = reserved_instances b"
    and n: "running_instances a = running_instances b"
  shows "instance_diff (compute_diff a) = instance_diff (compute_diff b)"
proof -
  let ?X = "dict_of_items
              (map (\<lambda>x. (x, dict_get (reserved_instances b) x 0 - dict_get (running_instances b) x 0))
                 (dict_keys (reserved_instances b)))"
  let ?ks = "dict_keys (running_instances b)"
  have "compute_diff a = running_only_loop ?ks (a\<lparr>instance_diff := ?X\<rparr>)"
    by (simp add: compute_diff_def Let_def r n)
  moreover have "compute_diff b = running_only_loop ?ks (b\<lparr>instance_diff := ?X\<rparr>)"
    by (simp add: compute_diff_def Let_def)
  moreover have "instance_diff (running_only_loop ?ks (a\<lparr>instance_diff := ?X\<rparr>))
               = instance_diff (running_only_loop ?ks (b\<lparr>instance_diff := ?X\<rparr>))"
    by (rule running_only_loop_agree) (simp_all add: r n)
  ultimately show ?thesis by simp
qed

lemma reports_agree:
  assumes "running_instances a = running_instances b" "instance_mapping a = instance_mapping b"
    "reserved_instances a = reserved_instances b"
  shows "variables (summary (report_used (report_unreserved (report_unused (compute_diff a)))))
       = variables (summary (report_used (report_unreserved (report_unused (compute_diff b)))))"
  unfolding variables_eq_iff
  using assms compute_diff_agree [OF assms(3,1)]
  by (simp add: reports_fields)

lemma after_first_loop_agree:
  assumes "running_instances a = running_instances b" "instance_mapping a = instance_mapping b"
  shows "rel_sum (=) (\<lambda>a' b'. variables a' = variables b')
     (case reserved_loop region_name rsv (a\<lparr>reserved_instances := []\<rparr>) of
        Inl e \<Rightarrow> Inl e
      | Inr s2 \<Rightarrow> Inr (summary (report_used (report_unreserved (report_unused (compute_diff s2))))))
     (case reserved_loop region_name rsv (b\<lparr>reserved_instances := []\<rparr>) of
        Inl e \<Rightarrow> Inl e
      | Inr s2 \<Rightarrow> Inr (summary (report_used (report_unreserved (report_unused (compute_diff s2))))))"
proof -
  let ?a = "a\<lparr>reserved_instances := []\<rparr>" and ?b = "b\<lparr>reserved_instances := []\<rparr>"
  have "reserved_instances ?a = reserved_instances ?b" by simp
  note agree = reserved_loop_agree [OF this, of region_name rsv]
  show ?thesis
  proof (cases "reserved_loop region_name rsv ?a")
    case (Inl e)
    with agree show ?thesis by (cases "reserved_loop region_name rsv ?b") simp_all
  next
    case (Inr a2)
    with agree obtain b2 where rb: "reserved_loop region_name rsv ?b = Inr b2"
      and r: "reserved_instances a2 = reserved_instances b2"
      by (cases "reserved_loop region_name rsv ?b") simp_all
    from reserved_loop_frame [OF Inr] obtain d where a2: "a2 = ?a\<lparr>reserved_instances := d\<rparr>"
      by blast
    from reserved_loop_frame [OF rb] obtain d' where b2: "b2 = ?b\<lparr>reserved_instances := d'\<rparr>"
      by blast
    have "running_instances a2 = running_instances b2" "instance_mapping a2 = instance_mapping b2"
      using assms by (simp_all add: a2 b2)
    from reports_agree [OF this r] show ?thesis by (simp only: Inr rb sum.case rel_sum_simps)
  qed
qed

lemma script_agree:
  "rel_sum (=) (\<lambda>a' b'. variables a' = variables b')
     (script region_name reservations reserved s1) (script region_name reservations reserved s2)"
proof -
  let ?a = "s1\<lparr>running_instances := [], instance_mapping := []\<rparr>"
  let ?b = "s2\<lparr>running_instances := [], instance_mapping := []\<rparr>"
  have "running_instances ?a = running_instances ?b" "instance_mapping ?a = instance_mapping ?b"
    by simp_all
  note agree = instances_loop_agree [OF this, of "concat reservations"]
  show ?thesis
  proof (cases "instances_loop (concat reservations) ?a")
    case (Inl e)
    with agree show ?thesis
      by (cases "instances_loop (concat reservations) ?b")
        (simp_all add: script_def reservations_loop_concat)
  next
    case (Inr a1)
    with agree obtain b1 where rb: "instances_loop (concat reservations) ?b = Inr b1"
      and r: "running_instances a1 = running_instances b1"
        "instance_mapping a1 = instance_mapping b1"
      by (cases "instances_loop (concat reservations) ?b") simp_all
    from after_first_loop_agree [OF r, of region_name reserved]
    show ?thesis by (simp only: script_def reservations_loop_concat Inr rb sum.case)
  qed
qed

text \<open>
  Claim C6. A run's variables at its end, the three buckets and the two totals among
  them, and whether it ends at all, are the same whatever state it starts in, the
  state an earlier run on the same input left behind included: the script assigns
  every variable before it reads it.
\<close>

theorem script_deterministic:
  "map_sum id variables (script region_name reservations reserved s1)
   = map_sum id variables (script region_name reservations reserved s2)"
  using script_agree [of region_name reservations reserved s1 s2]
  by (cases "script region_name reservations reserved s1";
      cases "script region_name reservations reserved s2") simp_all

text \<open>
  Claim C4. On a successful run, the run on the input without the records that carry a
  \<open>SpotInstanceRequestId\<close> succeeds with the same \<open>running_instances\<close>, the same
  \<open>instance_mapping\<close> and the same other variables, and writes nothing to
  \<open>stderr\<close>; the only trace of those records is one line each on \<open>stderr\<close>.
\<close>

theorem spot_instances_not_counted:
  assumes "script region_name reservations reserved s0 = Inr sf"
  shows "\<exists>sf'. script region_name (map (filter (\<lambda>inst. \<not> is_spot inst)) reservations) reserved s0
                 = Inr sf'
           \<and> running_instances sf' = running_instances sf
           \<and> instance_mapping sf' = instance_mapping sf
           \<and> variables sf' = variables sf
           \<and> stderr sf' = stderr s0
           \<and> stderr sf = stderr s0 @ disqualified_log (concat reservations)"
proof -
  let ?keep = "\<lambda>inst. \<not> is_spot inst"
  let ?s = "s0\<lparr>running_instances := [], instance_mapping := []\<rparr>"
  from assms obtain s1 s2 where
    l1: "instances_loop (concat reservations) ?s = Inr s1"
    and l2: "reserved_loop region_name reserved (s1\<lparr>reserved_instances := []\<rparr>) = Inr s2"
    and sf: "sf = summary (report_used (report_unreserved (report_unused (compute_diff s2))))"
    by (rule script_Inr)
  have c: "concat (map (filter ?keep) reservations) = filter ?keep (concat reservations)"
    by (simp add: filter_concat)
  from instances_loop_drop_spot [OF l1, of "stderr s0"]
  have l1': "instances_loop (filter ?keep (concat reservations)) ?s = Inr (s1\<lparr>stderr := stderr s0\<rparr>)"
    by simp
  let ?t1 = "s1\<lparr>stderr := stderr s0\<rparr>"
  have "running_instances ?t1 = running_instances s1" "instance_mapping ?t1 = instance_mapping s1"
    by simp_all
  from after_first_loop_agree [OF this, of region_name reserved] l2
  obtain t2 where l2': "reserved_loop region_name reserved (?t1\<lparr>reserved_instances := []\<rparr>) = Inr t2"
    and v: "variables (summary (report_used (report_unreserved (report_unused (compute_diff t2)))))
            = variables sf"
    by (cases "reserved_loop region_name reserved (?t1\<lparr>reserved_instances := []\<rparr>)")
      (simp_all only: sum.case rel_sum_simps sf)
  let ?sf' = "summary (report_used (report_unreserved (report_unused (compute_diff t2))))"
  have run': "script region_name (map (filter ?keep) reservations) reserved s0 = Inr ?sf'"
    by (simp add: script_def reservations_loop_concat c l1' l2')
  from reserved_loop_frame [OF l2'] obtain d where "t2 = ?t1\<lparr>reserved_instances := d\<rparr>" by auto
  then have e: "stderr ?sf' = stderr s0" by (simp add: reports_fields)
  from v have "running_instances ?sf' = running_instances sf"
    "instance_mapping ?sf' = instance_mapping sf"
    by (simp_all add: variables_eq_iff)
  with run' v e script_running(8) [OF assms] show ?thesis by blast
qed

theorem spot_instances_not_counted_witness:
  "script ''ap-south-1'' example_reservations example_reserved blank_state = Inr example_final
   \<and> script ''ap-south-1'' (map (filter (\<lambda>inst. \<not> is_spot inst)) example_reservations)
        example_reserved blank_state = Inr (example_final\<lparr>stderr := []\<rparr>)
   \<and> stderr example_final = disqualified_log (concat example_reservations)"
proof -
  let ?kept =
    "[[on_demand ''i-1'' ''m5.large'' ''eu-west-1a'', on_demand ''i-2'' ''m5.large'' ''eu-west-1b''],
      [on_demand ''i-4'' ''m5.large'' ''eu-west-1a''],
      [on_demand ''i-5'' ''c5.xlarge'' ''us-east-1a'', on_demand ''i-6'' ''c5.xlarge'' ''us-east-1b'']]"
  have "map (filter (\<lambda>inst. \<not> is_spot inst)) example_reservations = ?kept"
    by (simp add: example_reservations_def is_spot_def on_demand_def)
  moreover have "script ''ap-south-1'' ?kept example_reserved blank_state
                 = Inr (example_final\<lparr>stderr := []\<rparr>)"
    by code_simp
  ultimately
  have 1: "script ''ap-south-1'' (map (filter (\<lambda>inst. \<not> is_spot inst)) example_reservations)
        example_reserved blank_state = Inr (example_final\<lparr>stderr := []\<rparr>)"
    by (simp only:)
  from spot_instances_not_counted [OF example_run]
  have "stderr example_final = stderr blank_state @ disqualified_log (concat example_reservations)"
    by (elim exE conjE)
  moreover have "stderr blank_state = []"
    by (simp add: blank_state_def)
  ultimately have 2: "stderr example_final = disqualified_log (concat example_reservations)"
    by (simp only: append_Nil)
  from example_run 1 2 show ?thesis by (intro conjI)
qed

end
